theory Spec2Isabelle
  imports Main
begin

section \<open>Documents, errors and the outside world\<close>

text \<open>
  A langchain \<open>Document\<close> has a text and a metadata dictionary. Metadata values are
  strings (the \<open>source\<close>) or integers (a page or row number).
\<close>

datatype meta_value = MStr string | MInt int

record document =
  page_content :: string
  metadata :: "string \<rightharpoonup> meta_value"

text \<open>
  What a library loader raises: the flag says whether the exception is a
  \<open>ValueError\<close>, the string is its message.
\<close>

datatype loader_exc = LoaderExc bool string

text \<open>
  The exceptions of the pipeline. \<open>UnsupportedExtension\<close> is the \<open>ValueError\<close> of the
  extension check and carries the lowercased extension; \<open>ClosedFile\<close> is the
  \<open>ValueError\<close> of reading a closed stream; \<open>IndexError\<close> and \<open>KeyError\<close> are
  Python's own.
\<close>

datatype error =
    UnsupportedExtension string
  | ClosedFile
  | LoaderRaised loader_exc
  | IndexError
  | KeyError string

fun is_ValueError :: "error \<Rightarrow> bool" where
  "is_ValueError (UnsupportedExtension e) = True"
| "is_ValueError ClosedFile = True"
| "is_ValueError (LoaderRaised (LoaderExc v m)) = v"
| "is_ValueError IndexError = False"
| "is_ValueError (KeyError k) = False"

text \<open>
  The file system maps a path to the contents of the file there. \<open>tmp_dir\<close> is the
  directory \<open>tempfile\<close> uses and \<open>entropy\<close> the random numbers it draws names from.
\<close>

record world =
  files :: "string \<rightharpoonup> string"
  tmp_dir :: string
  entropy :: "nat list"

text \<open>An uploaded stream (\<open>BinaryIO\<close>): its bytes, the read position, and whether it is closed.\<close>

record binary_io =
  content :: string
  position :: nat
  closed :: bool

text \<open>\<open>file.read()\<close>: the rest of the stream; a closed stream raises.\<close>

definition file_read :: "binary_io \<Rightarrow> error + (string \<times> binary_io)" where
  "file_read f =
     (if closed f then Inl ClosedFile
      else Inr (drop (position f) (content f), f\<lparr>position := length (content f)\<rparr>))"

text \<open>
  The three library loaders (\<open>PyPDFLoader(p).load()\<close> and so on) read the file at a path
  and return documents or raise. Their code belongs to the library; they are parameters.
\<close>

record library =
  PyPDFLoader :: "(string \<rightharpoonup> string) \<Rightarrow> string \<Rightarrow> loader_exc + document list"
  TextLoader :: "(string \<rightharpoonup> string) \<Rightarrow> string \<Rightarrow> loader_exc + document list"
  CSVLoader :: "(string \<rightharpoonup> string) \<Rightarrow> string \<Rightarrow> loader_exc + document list"

section \<open>Paths and strings of the standard library\<close>

text \<open>
  \<open>str.lower\<close> on the code points below 256, which are the characters of the model: the
  letters \<open>A\<close> to \<open>Z\<close> and the thirty capital letters from \<open>0xC0\<close> to \<open>0xDE\<close> (all but the
  multiplication sign \<open>0xD7\<close>) go to the letter 32 places on; every other character is
  kept.
\<close>

definition upper_letters :: string where
  "upper_letters = ''ABCDEFGHIJKLMNOPQRSTUVWXYZ'' @
     [CHR 0xC0, CHR 0xC1, CHR 0xC2, CHR 0xC3, CHR 0xC4, CHR 0xC5, CHR 0xC6, CHR 0xC7,
      CHR 0xC8, CHR 0xC9, CHR 0xCA, CHR 0xCB, CHR 0xCC, CHR 0xCD, CHR 0xCE, CHR 0xCF,
      CHR 0xD0, CHR 0xD1, CHR 0xD2, CHR 0xD3, CHR 0xD4, CHR 0xD5, CHR 0xD6, CHR 0xD8,
      CHR 0xD9, CHR 0xDA, CHR 0xDB, CHR 0xDC, CHR 0xDD, CHR 0xDE]"

definition lower_letters :: string where
  "lower_letters = ''abcdefghijklmnopqrstuvwxyz'' @
     [CHR 0xE0, CHR 0xE1, CHR 0xE2, CHR 0xE3, CHR 0xE4, CHR 0xE5, CHR 0xE6, CHR 0xE7,
      CHR 0xE8, CHR 0xE9, CHR 0xEA, CHR 0xEB, CHR 0xEC, CHR 0xED, CHR 0xEE, CHR 0xEF,
      CHR 0xF0, CHR 0xF1, CHR 0xF2, CHR 0xF3, CHR 0xF4, CHR 0xF5, CHR 0xF6, CHR 0xF8,
      CHR 0xF9, CHR 0xFA, CHR 0xFB, CHR 0xFC, CHR 0xFD, CHR 0xFE]"

definition lower_char :: "char \<Rightarrow> char" where
  "lower_char c =
     (case map_of (zip upper_letters lower_letters) c of
        None \<Rightarrow> c
      | Some l \<Rightarrow> l)"

definition lower :: "string \<Rightarrow> string" where
  "lower s = map lower_char s"

text \<open>The components of a POSIX path: the text between the slashes.\<close>

fun split_slash :: "string \<Rightarrow> string list" where
  "split_slash [] = [[]]"
| "split_slash (c # cs) =
     (if c = CHR ''/'' then [] # split_slash cs
      else (case split_slash cs of
              [] \<Rightarrow> [[c]]
            | p # ps \<Rightarrow> (c # p) # ps))"

text \<open>
  \<open>Path(p).name\<close>: the last component, where empty components and \<open>.\<close> do not count;
  the empty string when there is none.
\<close>

definition path_name :: "string \<Rightarrow> string" where
  "path_name p =
     (case filter (\<lambda>c. c \<noteq> [] \<and> c \<noteq> ''.'') (split_slash p) of
        [] \<Rightarrow> []
      | c # cs \<Rightarrow> last (c # cs))"

text \<open>
  \<open>Path(p).suffix\<close>: with \<open>i\<close> the index of the last dot of the name, the name from \<open>i\<close>
  on when \<open>0 < i < len(name) - 1\<close>, and the empty string otherwise.
\<close>

definition suffix :: "string \<Rightarrow> string" where
  "suffix p =
     (let name = path_name p;
          after = rev (takeWhile (\<lambda>c. c \<noteq> CHR ''.'') (rev name))
      in if CHR ''.'' \<in> set name \<and> after \<noteq> [] \<and> length after + 1 < length name
         then CHR ''.'' # after
         else [])"

text \<open>
  \<open>str(Path(p))\<close>: the components that count, joined by single slashes, after the root:
  exactly two leading slashes are kept, one or more than two give one; the path without
  root and components is \<open>.\<close>.
\<close>

fun join_path :: "string list \<Rightarrow> string" where
  "join_path [] = []"
| "join_path [x] = x"
| "join_path (x # y # ys) = x @ ''/'' @ join_path (y # ys)"

definition path_str :: "string \<Rightarrow> string" where
  "path_str p =
     (let slashes = length (takeWhile (\<lambda>c. c = CHR ''/'') p);
          root = (if slashes = 2 then ''//'' else if slashes = 0 then [] else ''/'');
          s = root @ join_path (filter (\<lambda>c. c \<noteq> [] \<and> c \<noteq> ''.'') (split_slash p))
      in if s = [] then ''.'' else s)"

text \<open>
  \<open>tempfile.NamedTemporaryFile(delete=False, suffix=s)\<close> creates an empty file named
  \<open>tmp\<close>, eight characters drawn from \<open>characters\<close>, and \<open>s\<close>, in the temporary
  directory. The library draws again when a name is taken; the model draws once.
\<close>

definition characters :: string where
  "characters = ''abcdefghijklmnopqrstuvwxyz0123456789_''"

definition random_name :: "nat list \<Rightarrow> string" where
  "random_name ns = map (\<lambda>n. characters ! (n mod 37)) (take 8 ns)"

definition NamedTemporaryFile :: "world \<Rightarrow> string \<Rightarrow> string \<times> world" where
  "NamedTemporaryFile w s =
     (let name = tmp_dir w @ ''/'' @ ''tmp'' @ random_name (entropy w) @ s
      in (name, w\<lparr>files := (files w)(name \<mapsto> []), entropy := drop 8 (entropy w)\<rparr>))"

text \<open>\<open>tmp_file.write(data)\<close> and \<open>Path(p).unlink(missing_ok=True)\<close>.\<close>

definition file_write :: "world \<Rightarrow> string \<Rightarrow> string \<Rightarrow> world" where
  "file_write w p data = w\<lparr>files := (files w)(p \<mapsto> data)\<rparr>"

definition unlink :: "world \<Rightarrow> string \<Rightarrow> world" where
  "unlink w p = w\<lparr>files := (files w)(p := None)\<rparr>"

section \<open>Loading: \<open>document_processor.py\<close>\<close>

definition SUPPORTED_EXTENSIONS :: "string set" where
  "SUPPORTED_EXTENSIONS = {''.txt'', ''.pdf'', ''.csv''}"

text \<open>
  \<open>load_pdf\<close>, \<open>load_text\<close> and \<open>load_csv\<close> turn their argument into a \<open>Path\<close> and hand
  the library loader \<open>str(file_path)\<close>.
\<close>

definition load_pdf :: "library \<Rightarrow> (string \<rightharpoonup> string) \<Rightarrow> string \<Rightarrow> error + document list" where
  "load_pdf lib fs file_path =
     (case PyPDFLoader lib fs (path_str file_path) of
        Inl e \<Rightarrow> Inl (LoaderRaised e)
      | Inr documents \<Rightarrow> Inr documents)"

definition load_text :: "library \<Rightarrow> (string \<rightharpoonup> string) \<Rightarrow> string \<Rightarrow> error + document list" where
  "load_text lib fs file_path =
     (case TextLoader lib fs (path_str file_path) of
        Inl e \<Rightarrow> Inl (LoaderRaised e)
      | Inr documents \<Rightarrow> Inr documents)"

definition load_csv :: "library \<Rightarrow> (string \<rightharpoonup> string) \<Rightarrow> string \<Rightarrow> error + document list" where
  "load_csv lib fs file_path =
     (case CSVLoader lib fs (path_str file_path) of
        Inl e \<Rightarrow> Inl (LoaderRaised e)
      | Inr documents \<Rightarrow> Inr documents)"

text \<open>The dictionary \<open>loaders\<close> of \<open>load_file\<close>.\<close>

definition loaders ::
  "library \<Rightarrow> string \<rightharpoonup> ((string \<rightharpoonup> string) \<Rightarrow> string \<Rightarrow> error + document list)" where
  "loaders lib =
     [''.pdf'' \<mapsto> load_pdf lib, ''.txt'' \<mapsto> load_text lib, ''.csv'' \<mapsto> load_csv lib]"

definition load_file :: "library \<Rightarrow> (string \<rightharpoonup> string) \<Rightarrow> string \<Rightarrow> error + document list" where
  "load_file lib fs file_path =
     (let extension = lower (suffix file_path)
      in if extension \<notin> SUPPORTED_EXTENSIONS then Inl (UnsupportedExtension extension)
         else (case loaders lib extension of
                 None \<Rightarrow> Inl (KeyError extension)
               | Some loader \<Rightarrow> loader fs file_path))"

text \<open>
  \<open>load_from_uploaded_file\<close>. The result comes with the world and the stream as the
  call leaves them. An exception inside the \<open>with\<close> block leaves through the block's
  exit, which closes the temporary file and, with \<open>delete=False\<close>, keeps it; the
  \<open>finally\<close> clause runs on both ways out of the \<open>try\<close>.
\<close>

definition load_from_uploaded_file ::
  "library \<Rightarrow> world \<Rightarrow> binary_io \<Rightarrow> string \<Rightarrow> (error + document list) \<times> world \<times> binary_io" where
  "load_from_uploaded_file lib w file filename =
     (let extension = lower (suffix filename)
      in if extension \<notin> SUPPORTED_EXTENSIONS then (Inl (UnsupportedExtension extension), w, file)
         else
           (let (tmp_path, w1) = NamedTemporaryFile w extension
            in case file_read file of
                 Inl e \<Rightarrow> (Inl e, w1, file)
               | Inr (data, file') \<Rightarrow>
                   (let w2 = file_write w1 tmp_path data
                    in case load_file lib (files w2) tmp_path of
                         Inl e \<Rightarrow> (Inl e, unlink w2 tmp_path, file')
                       | Inr documents \<Rightarrow>
                           (Inr (map (\<lambda>doc. doc\<lparr>metadata := (metadata doc)(''source'' \<mapsto> MStr filename)\<rparr>)
                                   documents),
                            unlink w2 tmp_path, file'))))"

section \<open>The chunk splitter\<close>

text \<open>
  Modelled from the spec: the Chunk Splitter of section 4.2, which is the library class
  \<open>RecursiveCharacterTextSplitter\<close> that \<open>_initialize_text_splitter\<close> configures; the
  class is not under \<open>src/\<close>. Section 4.2 gives the strategy: split on the first
  separator of the priority list that occurs, split a piece that is still too long with
  the separators after it, and cut by characters under the empty separator. Where the
  section is silent (how short pieces are merged up to \<open>chunk_size\<close>, how the overlap is
  carried over, the trimming of white space) the definitions follow the library's
  algorithm, method by method: \<open>_join_docs\<close>, \<open>_merge_splits\<close>,
  \<open>_split_text_with_regex\<close>, \<open>_split_text\<close>, \<open>split_text\<close>, \<open>create_documents\<close> and
  \<open>split_documents\<close>, with the class's defaults \<open>keep_separator=True\<close> and
  \<open>strip_whitespace=True\<close>.
\<close>

record text_splitter =
  ts_chunk_size :: int
  ts_chunk_overlap :: int
  separators :: "string list"

text \<open>\<open>str.strip()\<close>: white space is removed at both ends.\<close>

definition whitespace :: "char list" where
  "whitespace =
     [CHR 0x09, CHR 0x0A, CHR 0x0B, CHR 0x0C, CHR 0x0D, CHR 0x1C, CHR 0x1D, CHR 0x1E, CHR 0x1F,
      CHR 0x20, CHR 0x85, CHR 0xA0]"

definition isspace :: "char \<Rightarrow> bool" where
  "isspace c = (c \<in> set whitespace)"

definition strip :: "string \<Rightarrow> string" where
  "strip s = rev (dropWhile isspace (rev (dropWhile isspace s)))"

text \<open>\<open>separator.join(docs)\<close>.\<close>

fun join :: "string \<Rightarrow> string list \<Rightarrow> string" where
  "join sep [] = []"
| "join sep [x] = x"
| "join sep (x # y # ys) = x @ sep @ join sep (y # ys)"

definition join_docs :: "string list \<Rightarrow> string \<Rightarrow> string option" where
  "join_docs docs separator =
     (let text = strip (join separator docs)
      in if text = [] then None else Some text)"

text \<open>
  The \<open>while\<close> loop of \<open>_merge_splits\<close>: pieces leave \<open>current_doc\<close> at the front until
  at most \<open>chunk_overlap\<close> characters stay and the next piece, of length \<open>len\<close>, fits.
  \<open>current_doc[0]\<close> of an empty list raises.
\<close>

fun pop_while :: "text_splitter \<Rightarrow> int \<Rightarrow> int \<Rightarrow> string list \<Rightarrow> int \<Rightarrow> error + (string list \<times> int)" where
  "pop_while ts separator_len len [] total_len =
     (if total_len > ts_chunk_overlap ts \<or> (total_len + len > ts_chunk_size ts \<and> total_len > 0)
      then Inl IndexError
      else Inr ([], total_len))"
| "pop_while ts separator_len len (x # xs) total_len =
     (if total_len > ts_chunk_overlap ts \<or> (total_len + len + separator_len > ts_chunk_size ts \<and> total_len > 0)
      then pop_while ts separator_len len xs
             (total_len - (int (length x) + (if xs \<noteq> [] then separator_len else 0)))
      else Inr (x # xs, total_len))"

text \<open>
  The \<open>for\<close> loop of \<open>_merge_splits\<close> with its variables \<open>docs\<close>, \<open>current_doc\<close> and
  \<open>total\<close> (here \<open>total_len\<close>), and the join after the loop.
\<close>

definition emit :: "string list \<Rightarrow> string list \<Rightarrow> string \<Rightarrow> string list" where
  "emit docs current_doc separator =
     (case join_docs current_doc separator of
        None \<Rightarrow> docs
      | Some doc \<Rightarrow> docs @ [doc])"

fun merge_loop ::
  "text_splitter \<Rightarrow> string \<Rightarrow> string list \<Rightarrow> string list \<Rightarrow> int \<Rightarrow> string list \<Rightarrow> error + string list" where
  "merge_loop ts separator docs current_doc total_len [] = Inr (emit docs current_doc separator)"
| "merge_loop ts separator docs current_doc total_len (d # ds) =
     (let len = int (length d);
          separator_len = int (length separator)
      in case
           (if total_len + len + (if current_doc \<noteq> [] then separator_len else 0) > ts_chunk_size ts
               \<and> current_doc \<noteq> []
            then (case pop_while ts separator_len len current_doc total_len of
                    Inl e \<Rightarrow> Inl e
                  | Inr (cur, t) \<Rightarrow> Inr (emit docs current_doc separator, cur, t))
            else Inr (docs, current_doc, total_len))
         of
           Inl e \<Rightarrow> Inl e
         | Inr (docs', cur, t) \<Rightarrow>
             merge_loop ts separator docs' (cur @ [d])
               (t + len + (if cur \<noteq> [] then separator_len else 0)) ds)"

definition merge_splits :: "text_splitter \<Rightarrow> string list \<Rightarrow> string \<Rightarrow> error + string list" where
  "merge_splits ts splits separator = merge_loop ts separator [] [] 0 splits"

text \<open>
  \<open>re.split\<close> at the occurrences of a separator that is not empty, from the left: the
  text before the first occurrence, and the texts after each occurrence.
\<close>

function re_split :: "string \<Rightarrow> string \<Rightarrow> string \<times> string list" where
  "re_split sep [] = ([], [])"
| "re_split sep (c # cs) =
     (if sep \<noteq> [] \<and> take (length sep) (c # cs) = sep
      then ([], (case re_split sep (drop (length sep) (c # cs)) of (p, ps) \<Rightarrow> p # ps))
      else (case re_split sep cs of (p, ps) \<Rightarrow> (c # p, ps)))"
  by pat_completeness auto
termination
  by (relation "measure (\<lambda>(sep, text). length text)") auto

text \<open>
  \<open>_split_text_with_regex\<close> with \<open>keep_separator=True\<close>: each piece after the first
  starts with the separator; the empty separator gives the characters; empty pieces are
  dropped.
\<close>

definition split_text_with_regex :: "string \<Rightarrow> string \<Rightarrow> string list" where
  "split_text_with_regex text separator =
     filter (\<lambda>s. s \<noteq> [])
       (if separator \<noteq> []
        then (case re_split separator text of (p, ps) \<Rightarrow> p # map (\<lambda>q. separator @ q) ps)
        else map (\<lambda>c. [c]) text)"

text \<open>\<open>re.search\<close> of a literal separator: does it occur in the text?\<close>

fun contains :: "string \<Rightarrow> string \<Rightarrow> bool" where
  "contains s [] = (s = [])"
| "contains s (c # cs) = (take (length s) (c # cs) = s \<or> contains s cs)"

text \<open>
  The first loop of \<open>_split_text\<close>: the first separator that is empty or occurs in the
  text, with the separators after it (none after the empty one); \<open>None\<close> when the loop
  ends without a \<open>break\<close>.
\<close>

fun find_separator :: "string list \<Rightarrow> string \<Rightarrow> (string \<times> string list) option" where
  "find_separator [] text = None"
| "find_separator (s # rest) text =
     (if s = [] then Some (s, [])
      else if contains s text then Some (s, rest)
      else find_separator rest text)"

text \<open>
  The second loop of \<open>_split_text\<close>, over the pieces, with its variables
  \<open>final_chunks\<close> and \<open>_good_splits\<close>; \<open>recurse\<close> is the recursive call of
  \<open>_split_text\<close> with the new separators.
\<close>

fun split_loop ::
  "text_splitter \<Rightarrow> string list \<Rightarrow> (string \<Rightarrow> error + string list) \<Rightarrow> string list \<Rightarrow> string list
     \<Rightarrow> string list \<Rightarrow> error + string list" where
  "split_loop ts new_separators recurse final_chunks good_splits [] =
     (if good_splits \<noteq> []
      then (case merge_splits ts good_splits [] of
              Inl e \<Rightarrow> Inl e
            | Inr merged_text \<Rightarrow> Inr (final_chunks @ merged_text))
      else Inr final_chunks)"
| "split_loop ts new_separators recurse final_chunks good_splits (s # ss) =
     (if int (length s) < ts_chunk_size ts
      then split_loop ts new_separators recurse final_chunks (good_splits @ [s]) ss
      else (case (if good_splits \<noteq> [] then merge_splits ts good_splits [] else Inr []) of
              Inl e \<Rightarrow> Inl e
            | Inr merged_text \<Rightarrow>
                (case (if new_separators = [] then Inr [s] else recurse s) of
                   Inl e \<Rightarrow> Inl e
                 | Inr other_info \<Rightarrow>
                     split_loop ts new_separators recurse
                       (final_chunks @ merged_text @ other_info) [] ss)))"

lemma find_separator_shorter:
  "find_separator seps text = Some (s, new_separators) \<Longrightarrow> length new_separators < length seps"
  by (induction seps) (auto split: if_splits)

function split_text_rec :: "text_splitter \<Rightarrow> string \<Rightarrow> string list \<Rightarrow> error + string list" where
  "split_text_rec ts text seps =
     (if seps = [] then Inl IndexError
      else (case find_separator seps text of
              None \<Rightarrow>
                split_loop ts [] (\<lambda>s. Inr [s]) [] [] (split_text_with_regex text (last seps))
            | Some (separator, new_separators) \<Rightarrow>
                split_loop ts new_separators (\<lambda>s. split_text_rec ts s new_separators) [] []
                  (split_text_with_regex text separator)))"
  by pat_completeness auto
termination
  by (relation "measure (\<lambda>(ts, text, seps). length seps)")
    (auto dest: find_separator_shorter)

declare split_text_rec.simps [simp del]

definition split_text :: "text_splitter \<Rightarrow> string \<Rightarrow> error + string list" where
  "split_text ts text = split_text_rec ts text (separators ts)"

text \<open>
  \<open>create_documents\<close>: every chunk of a text becomes a document with a copy of the
  metadata of the text it comes from. \<open>split_documents\<close> hands it the texts and the
  metadata of the documents.
\<close>

fun create_documents ::
  "text_splitter \<Rightarrow> string list \<Rightarrow> (string \<rightharpoonup> meta_value) list \<Rightarrow> error + document list" where
  "create_documents ts [] ms = Inr []"
| "create_documents ts (text # texts) [] = Inl IndexError"
| "create_documents ts (text # texts) (m # ms) =
     (case split_text ts text of
        Inl e \<Rightarrow> Inl e
      | Inr chunks \<Rightarrow>
          (case create_documents ts texts ms of
             Inl e \<Rightarrow> Inl e
           | Inr documents \<Rightarrow>
               Inr (map (\<lambda>chunk. \<lparr>page_content = chunk, metadata = m\<rparr>) chunks @ documents)))"

definition splitter_split_documents :: "text_splitter \<Rightarrow> document list \<Rightarrow> error + document list" where
  "splitter_split_documents ts documents =
     create_documents ts (map page_content documents) (map metadata documents)"

text \<open>
  The windows of a text: the first \<open>n\<close> characters, then the windows of the text from
  \<open>n - k\<close> characters on, so that a window starts with the last \<open>k\<close> characters of
  the window before it. They describe the chunks of a text without separators, for
  \<open>n\<close> the chunk size and \<open>k\<close> the overlap. \<open>chars\<close> gives the characters of a text
  as pieces.
\<close>

function windows :: "nat \<Rightarrow> nat \<Rightarrow> string \<Rightarrow> string list" where
  "windows n k w =
     (if length w \<le> n \<or> n \<le> k then [w]
      else take n w # windows n k (drop (n - k) w))"
  by pat_completeness auto
termination
  by (relation "measure (\<lambda>(n, k, w). length w)") auto

declare windows.simps [simp del]

definition chars :: "string \<Rightarrow> string list" where
  "chars w = map (\<lambda>c. [c]) w"

section \<open>The document processor\<close>

text \<open>
  Modelled from the spec: the process-wide configuration (\<open>app.config\<close>, not under
  \<open>src/\<close>), of which section 6 lists the default \<open>chunk_size\<close>, the default
  \<open>chunk_overlap\<close>, the embedding model identifier and the provider credential.
\<close>

record settings =
  settings_chunk_size :: int
  settings_chunk_overlap :: int
  embedding_model :: string
  openai_api_key :: string

record document_processor =
  chunk_size :: int
  chunk_overlap :: int
  text_splitter :: text_splitter

text \<open>Python's \<open>x or y\<close> for an optional integer \<open>x\<close>: \<open>None\<close> and \<open>0\<close> are false.\<close>

definition py_or :: "int option \<Rightarrow> int \<Rightarrow> int" where
  "py_or x y = (case x of None \<Rightarrow> y | Some v \<Rightarrow> if v = 0 then y else v)"

definition initialize_text_splitter :: "int \<Rightarrow> int \<Rightarrow> text_splitter" where
  "initialize_text_splitter cs co =
     \<lparr>ts_chunk_size = cs, ts_chunk_overlap = co,
      separators = [[CHR 0x0A, CHR 0x0A], [CHR 0x0A], ''. '', '' '', []]\<rparr>"

definition DocumentProcessor :: "settings \<Rightarrow> int option \<Rightarrow> int option \<Rightarrow> document_processor" where
  "DocumentProcessor st given_size given_overlap =
     (let cs = py_or given_size (settings_chunk_size st);
          co = py_or given_overlap (settings_chunk_overlap st)
      in \<lparr>chunk_size = cs, chunk_overlap = co, text_splitter = initialize_text_splitter cs co\<rparr>)"

definition split_documents :: "document_processor \<Rightarrow> document list \<Rightarrow> error + document list" where
  "split_documents p documents = splitter_split_documents (text_splitter p) documents"

definition process_file ::
  "library \<Rightarrow> document_processor \<Rightarrow> (string \<rightharpoonup> string) \<Rightarrow> string \<Rightarrow> error + document list" where
  "process_file lib p fs file_path =
     (case load_file lib fs file_path of
        Inl e \<Rightarrow> Inl e
      | Inr documents \<Rightarrow> split_documents p documents)"

definition process_upload ::
  "library \<Rightarrow> document_processor \<Rightarrow> world \<Rightarrow> binary_io \<Rightarrow> string
     \<Rightarrow> (error + document list) \<times> world \<times> binary_io" where
  "process_upload lib p w file filename =
     (case load_from_uploaded_file lib w file filename of
        (Inl e, w', file') \<Rightarrow> (Inl e, w', file')
      | (Inr documents, w', file') \<Rightarrow> (split_documents p documents, w', file'))"

section \<open>The upload route: \<open>routes/documents.py\<close>\<close>

text \<open>
  Modelled from the spec: the Vector Store of section 6 (\<open>app.core.vector_store\<close>, not
  under \<open>src/\<close>), which receives a sequence of chunks for storage and returns the
  identifiers it assigns. The model keeps every batch it receives, in order.
\<close>

record vector_store =
  received :: "document list list"

definition add_documents :: "vector_store \<Rightarrow> document list \<Rightarrow> nat list \<times> vector_store" where
  "add_documents vs documents =
     (let n = length (concat (received vs))
      in ([n ..< n + length documents], vs\<lparr>received := received vs @ [documents]\<rparr>))"

record upload_file =
  upload_filename :: "string option"
  upload_stream :: binary_io

record document_upload_response =
  message :: string
  response_filename :: string
  chunks_created :: nat
  document_ids :: "nat list"

text \<open>An \<open>HTTPException\<close>: the status code, and as detail a fixed message or the exception caught.\<close>

datatype detail = Message string | Str error

datatype http_exception = HTTPException nat detail

definition upload_document ::
  "settings \<Rightarrow> library \<Rightarrow> world \<Rightarrow> vector_store \<Rightarrow> upload_file
     \<Rightarrow> (http_exception + document_upload_response) \<times> world \<times> vector_store" where
  "upload_document st lib w vs f =
     (case upload_filename f of
        None \<Rightarrow> (Inl (HTTPException 400 (Message ''Filename is required'')), w, vs)
      | Some name \<Rightarrow>
          if name = [] then (Inl (HTTPException 400 (Message ''Filename is required'')), w, vs)
          else
            (let processor = DocumentProcessor st None None
             in case load_from_uploaded_file lib w (upload_stream f) name of
                  (Inl e, w', file') \<Rightarrow>
                    (Inl (if is_ValueError e then HTTPException 400 (Str e)
                          else HTTPException 500 (Message ''Error processing document'')),
                     w', vs)
                | (Inr chunked_docs, w', file') \<Rightarrow>
                    (let (ids, vs') = add_documents vs chunked_docs
                     in (Inr \<lparr>message = ''Document uploaded and processed successfully'',
                               response_filename = name,
                               chunks_created = length chunked_docs,
                               document_ids = ids\<rparr>,
                         w', vs'))))"

section \<open>The embedding model cache: \<open>embeddings.py\<close>\<close>

text \<open>
  An \<open>OpenAIEmbeddings\<close> object: its configuration and its identity, the number of the
  construction that made it. The process state holds the slot of \<open>lru_cache\<close> (the
  function takes no argument, so the cache has one entry) and counts the objects
  constructed. \<open>accepts\<close> says whether the library's constructor takes the
  configuration or raises; an exception is not cached. \<open>get_embedding_model\<close> is a
  whole call with no other thread in between; the steps of calls that overlap are those
  of \<open>advance\<close> below.
\<close>

record openai_embeddings =
  model :: string
  api_key :: string
  identity :: nat

record process =
  cache :: "openai_embeddings option"
  constructed :: nat

datatype provider_error = ProviderError

definition get_embedding_model ::
  "(settings \<Rightarrow> bool) \<Rightarrow> settings \<Rightarrow> process \<Rightarrow> (provider_error + openai_embeddings) \<times> process" where
  "get_embedding_model accepts st pr =
     (case cache pr of
        Some cached \<Rightarrow> (Inr cached, pr)
      | None \<Rightarrow>
          if accepts st
          then (let made =
                      \<lparr>model = embedding_model st, api_key = openai_api_key st,
                       identity = constructed pr\<rparr>
                in (Inr made, pr\<lparr>cache := Some made, constructed := constructed pr + 1\<rparr>))
          else (Inl ProviderError, pr))"






text \<open>
  Calls that overlap. \<open>lru_cache\<close> looks the key up, on a miss calls the function without
  holding a lock, and afterwards stores the result unless the key has been stored
  meanwhile; the caller gets the result of its own call. A thread that called
  \<open>get_embedding_model\<close> is about to look up (\<open>Calling\<close>), has missed (\<open>Missed\<close>), has
  constructed a provider (\<open>Made\<close>), or has returned. \<open>advance\<close> lets one thread take its
  next step; \<open>interleave\<close> runs the threads in the order of a schedule, which names the
  thread to take each step.
\<close>

datatype thread =
    Calling
  | Missed
  | Made openai_embeddings
  | Returned "provider_error + openai_embeddings"

fun advance :: "(settings \<Rightarrow> bool) \<Rightarrow> settings \<Rightarrow> process \<Rightarrow> thread \<Rightarrow> thread \<times> process" where
  "advance accepts st pr Calling =
     (case cache pr of
        Some cached \<Rightarrow> (Returned (Inr cached), pr)
      | None \<Rightarrow> (Missed, pr))"
| "advance accepts st pr Missed =
     (if accepts st
      then (Made \<lparr>model = embedding_model st, api_key = openai_api_key st,
                  identity = constructed pr\<rparr>,
            pr\<lparr>constructed := constructed pr + 1\<rparr>)
      else (Returned (Inl ProviderError), pr))"
| "advance accepts st pr (Made made) =
     (Returned (Inr made),
      (case cache pr of
         None \<Rightarrow> pr\<lparr>cache := Some made\<rparr>
       | Some stored \<Rightarrow> pr))"
| "advance accepts st pr (Returned r) = (Returned r, pr)"

fun interleave ::
  "(settings \<Rightarrow> bool) \<Rightarrow> settings \<Rightarrow> nat list \<Rightarrow> thread list \<times> process
     \<Rightarrow> thread list \<times> process" where
  "interleave accepts st [] (threads, pr) = (threads, pr)"
| "interleave accepts st (i # schedule) (threads, pr) =
     (if i < length threads
      then (case advance accepts st pr (threads ! i) of
              (t, pr') \<Rightarrow> interleave accepts st schedule (threads[i := t], pr'))
      else interleave accepts st schedule (threads, pr))"

section \<open>A small world to run the pipeline in\<close>

text \<open>
  Modelled from the spec: a text loader after section 4.1 (one unit holding the whole
  file, with the path as \<open>source\<close>), and a loader that always raises. They stand in
  for the library's loaders where a theorem is run on a concrete upload. \<open>page_loader\<close>
  and \<open>row_loader\<close> mark their one unit with a page and a row number, as section 4.1
  says of the PDF and CSV loaders, so that the three loaders of \<open>three_loaders\<close> can be
  told apart by what they return.
\<close>

definition whole_file_loader :: "(string \<rightharpoonup> string) \<Rightarrow> string \<Rightarrow> loader_exc + document list" where
  "whole_file_loader fs p =
     (case fs p of
        None \<Rightarrow> Inl (LoaderExc False ''No such file'')
      | Some text \<Rightarrow> Inr [\<lparr>page_content = text, metadata = [''source'' \<mapsto> MStr p]\<rparr>])"

definition failing_loader :: "(string \<rightharpoonup> string) \<Rightarrow> string \<Rightarrow> loader_exc + document list" where
  "failing_loader fs p = Inl (LoaderExc False ''cannot parse'')"

definition page_loader :: "(string \<rightharpoonup> string) \<Rightarrow> string \<Rightarrow> loader_exc + document list" where
  "page_loader fs p =
     (case fs p of
        None \<Rightarrow> Inl (LoaderExc False ''No such file'')
      | Some text \<Rightarrow>
          Inr [\<lparr>page_content = text, metadata = [''page'' \<mapsto> MInt 0, ''source'' \<mapsto> MStr p]\<rparr>])"

definition row_loader :: "(string \<rightharpoonup> string) \<Rightarrow> string \<Rightarrow> loader_exc + document list" where
  "row_loader fs p =
     (case fs p of
        None \<Rightarrow> Inl (LoaderExc False ''No such file'')
      | Some text \<Rightarrow>
          Inr [\<lparr>page_content = text, metadata = [''row'' \<mapsto> MInt 0, ''source'' \<mapsto> MStr p]\<rparr>])"

definition three_loaders :: library where
  "three_loaders =
     \<lparr>PyPDFLoader = page_loader, TextLoader = whole_file_loader, CSVLoader = row_loader\<rparr>"

definition example_library :: library where
  "example_library =
     \<lparr>PyPDFLoader = whole_file_loader, TextLoader = whole_file_loader, CSVLoader = failing_loader\<rparr>"

definition example_world :: world where
  "example_world = \<lparr>files = Map.empty, tmp_dir = ''/tmp'', entropy = [0, 1, 2, 3, 4, 5, 6, 7]\<rparr>"

definition example_settings :: settings where
  "example_settings =
     \<lparr>settings_chunk_size = 9, settings_chunk_overlap = 2,
      embedding_model = ''text-embedding-3-small'', openai_api_key = ''sk-test''\<rparr>"

definition upload_of :: "string \<Rightarrow> binary_io" where
  "upload_of data = \<lparr>content = data, position = 0, closed = False\<rparr>"

definition closed_upload :: binary_io where
  "closed_upload = \<lparr>content = ''abc'', position = 0, closed = True\<rparr>"

section \<open>Facts about paths and temporary names\<close>

lemma lower_supported: "e \<in> SUPPORTED_EXTENSIONS \<Longrightarrow> lower e = e"
  by (auto simp: SUPPORTED_EXTENSIONS_def lower_def lower_char_def upper_letters_def lower_letters_def)

lemma split_slash_not_Nil [simp]: "split_slash p \<noteq> []"
  by (induction p) (auto split: list.splits)

lemma split_slash_no_slash: "CHR ''/'' \<notin> set r \<Longrightarrow> split_slash r = [r]"
  by (induction r) auto

lemma split_slash_append:
  "split_slash (d @ CHR ''/'' # r) = split_slash d @ split_slash r"
  by (induction d) (auto split: list.splits)

lemma path_name_last_component:
  assumes "CHR ''/'' \<notin> set r" "r \<noteq> []" "r \<noteq> ''.''"
  shows "path_name (d @ CHR ''/'' # r) = r"
proof -
  have alt: "path_name p =
      (let cs = filter (\<lambda>c. c \<noteq> [] \<and> c \<noteq> ''.'') (split_slash p)
       in if cs = [] then [] else last cs)" for p
    by (simp add: path_name_def Let_def split: list.splits)
  show ?thesis
    using assms by (simp add: alt split_slash_append split_slash_no_slash)
qed

lemma random_name_no_slash: "CHR ''/'' \<notin> set (random_name ns)"
proof -
  have "characters ! (n mod 37) \<in> set characters" for n
    by (rule nth_mem) (simp add: characters_def)
  moreover have "CHR ''/'' \<notin> set characters"
    by (simp add: characters_def)
  ultimately show ?thesis
    by (auto simp: random_name_def)
qed

lemma suffix_of_tmp_name:
  assumes "e \<in> SUPPORTED_EXTENSIONS" "CHR ''/'' \<notin> set r"
  shows "suffix (d @ ''/'' @ ''tmp'' @ r @ e) = e"
proof -
  have e: "CHR ''/'' \<notin> set e" using assms(1) by (auto simp: SUPPORTED_EXTENSIONS_def)
  have "path_name (d @ CHR ''/'' # (''tmp'' @ r @ e)) = ''tmp'' @ r @ e"
    using assms(2) e by (intro path_name_last_component) auto
  then have n: "path_name (d @ ''/'' @ ''tmp'' @ r @ e) = ''tmp'' @ r @ e" by simp
  show ?thesis
    using assms(1) unfolding suffix_def n
    by (auto simp: SUPPORTED_EXTENSIONS_def Let_def)
qed

lemmas example_defs =
  example_library_def example_world_def example_settings_def upload_of_def
  whole_file_loader_def failing_loader_def

lemmas loading_defs =
  load_from_uploaded_file_def load_file_def loaders_def load_pdf_def load_text_def load_csv_def
  lower_def lower_char_def upper_letters_def lower_letters_def suffix_def path_name_def SUPPORTED_EXTENSIONS_def
  NamedTemporaryFile_def random_name_def characters_def file_read_def file_write_def
  unlink_def path_str_def Let_def

lemma suffix_report: "lower (suffix ''report.pdf'') = ''.pdf''"
  by (simp add: lower_def suffix_def path_name_def lower_char_def upper_letters_def lower_letters_def)

lemma suffix_REPORT: "lower (suffix ''REPORT.PDF'') = ''.pdf''"
  by (simp add: lower_def suffix_def path_name_def lower_char_def upper_letters_def lower_letters_def)

lemma suffix_notes: "lower (suffix ''notes.txt'') = ''.txt''"
  by (simp add: lower_def suffix_def path_name_def lower_char_def upper_letters_def lower_letters_def)

lemma suffix_docx: "lower (suffix ''notes.docx'') = ''.docx''"
  by (simp add: lower_def suffix_def path_name_def lower_char_def upper_letters_def lower_letters_def)

lemma example_processor:
  "text_splitter (DocumentProcessor example_settings None None) = initialize_text_splitter 9 2"
  by (simp add: DocumentProcessor_def py_or_def example_settings_def)

lemma example_split:
  "split_text (initialize_text_splitter 9 2) ''aaaa bbbb cccc'' = Inr [''aaaa bbbb'', ''cccc'']"
  by code_simp

lemma example_upload_pdf:
  "load_from_uploaded_file example_library example_world (upload_of ''aaaa bbbb cccc'') ''report.pdf''
     = (Inr [\<lparr>page_content = ''aaaa bbbb cccc'', metadata = [''source'' \<mapsto> MStr ''report.pdf'']\<rparr>],
        example_world\<lparr>files := Map.empty, entropy := []\<rparr>,
        \<lparr>content = ''aaaa bbbb cccc'', position = 14, closed = False\<rparr>)"
  by (simp add: loading_defs example_defs)

lemma example_upload_txt:
  "load_from_uploaded_file example_library example_world (upload_of ''aaaa bbbb cccc'') ''notes.txt''
     = (Inr [\<lparr>page_content = ''aaaa bbbb cccc'', metadata = [''source'' \<mapsto> MStr ''notes.txt'']\<rparr>],
        example_world\<lparr>files := Map.empty, entropy := []\<rparr>,
        \<lparr>content = ''aaaa bbbb cccc'', position = 14, closed = False\<rparr>)"
  by (simp add: loading_defs example_defs)

lemma example_process_upload:
  assumes "load_from_uploaded_file example_library example_world (upload_of ''aaaa bbbb cccc'') name
     = (Inr [\<lparr>page_content = ''aaaa bbbb cccc'', metadata = m\<rparr>], w', f')"
  shows "process_upload example_library (DocumentProcessor example_settings None None)
           example_world (upload_of ''aaaa bbbb cccc'') name
     = (Inr [\<lparr>page_content = ''aaaa bbbb'', metadata = m\<rparr>,
             \<lparr>page_content = ''cccc'', metadata = m\<rparr>], w', f')"
  using assms
  by (simp add: process_upload_def split_documents_def splitter_split_documents_def
      example_processor example_split)

section \<open>Rejecting unsupported extensions\<close>

text \<open>
  C8: a filename whose lowercased extension is not one of \<open>.txt\<close>, \<open>.pdf\<close>, \<open>.csv\<close> makes
  \<open>load_from_uploaded_file\<close> and \<open>process_upload\<close> raise the unsupported-extension error,
  and the world and the stream are as before the call: no temporary file exists and
  nothing was read from the stream.
\<close>

theorem unsupported_extension_rejected_before_io:
  assumes "lower (suffix filename) \<notin> SUPPORTED_EXTENSIONS"
  shows "load_from_uploaded_file lib w file filename
           = (Inl (UnsupportedExtension (lower (suffix filename))), w, file)
       \<and> process_upload lib p w file filename
           = (Inl (UnsupportedExtension (lower (suffix filename))), w, file)"
  using assms by (simp add: load_from_uploaded_file_def process_upload_def)

theorem unsupported_extension_rejected_before_io_witness:
  "load_from_uploaded_file example_library example_world (upload_of ''x'') ''notes.docx''
     = (Inl (UnsupportedExtension ''.docx''), example_world, upload_of ''x'')
   \<and> process_upload example_library (DocumentProcessor example_settings None None)
         example_world (upload_of ''x'') ''notes.docx''
     = (Inl (UnsupportedExtension ''.docx''), example_world, upload_of ''x'')"
  using unsupported_extension_rejected_before_io
    [of "''notes.docx''" example_library example_world "upload_of ''x''"
        "DocumentProcessor example_settings None None"]
  by (simp add: suffix_docx SUPPORTED_EXTENSIONS_def)

section \<open>Extensions in any letter case\<close>

lemma loaders_cases:
  assumes "e \<in> SUPPORTED_EXTENSIONS"
  shows "loaders lib e =
           Some (if e = ''.pdf'' then load_pdf lib else if e = ''.txt'' then load_text lib
                 else load_csv lib)"
  using assms by (auto simp: SUPPORTED_EXTENSIONS_def loaders_def)

lemma loader_never_unsupported:
  assumes "loaders lib e = Some loader"
  shows "loader fs p \<noteq> Inl (UnsupportedExtension x)"
  using assms
  by (auto simp: loaders_def load_pdf_def load_text_def load_csv_def
      split: if_splits sum.splits)

lemma load_file_supported:
  assumes "lower (suffix p) \<in> SUPPORTED_EXTENSIONS" "loaders lib (lower (suffix p)) = Some loader"
  shows "load_file lib fs p = loader fs p"
  using assms by (simp add: load_file_def)

lemma load_file_tmp:
  assumes "e \<in> SUPPORTED_EXTENSIONS" "loaders lib e = Some loader"
  shows "load_file lib fs (fst (NamedTemporaryFile w e)) = loader fs (fst (NamedTemporaryFile w e))"
proof -
  have "suffix (fst (NamedTemporaryFile w e)) = e"
    using suffix_of_tmp_name [OF assms(1) random_name_no_slash]
    by (simp add: NamedTemporaryFile_def Let_def)
  then have "lower (suffix (fst (NamedTemporaryFile w e))) = e"
    using lower_supported [OF assms(1)] by simp
  then show ?thesis
    using assms by (simp add: load_file_def)
qed

lemma loaders_library:
  assumes "e \<in> SUPPORTED_EXTENSIONS" "loaders lib e = Some loader"
  shows "loader fs p =
     (case (if e = ''.pdf'' then PyPDFLoader lib else if e = ''.txt'' then TextLoader lib
            else CSVLoader lib) fs (path_str p) of
        Inl x \<Rightarrow> Inl (LoaderRaised x)
      | Inr documents \<Rightarrow> Inr documents)"
  using assms
  by (auto simp: SUPPORTED_EXTENSIONS_def loaders_def load_pdf_def load_text_def load_csv_def)

text \<open>
  C10: when the suffix of a name lowercases to a supported extension, \<open>load_file\<close> looks
  up the lowercased extension in \<open>loaders\<close> and so calls \<open>load_pdf\<close> for \<open>.pdf\<close>,
  \<open>load_text\<close> for \<open>.txt\<close> and \<open>load_csv\<close> for \<open>.csv\<close>, each of which runs its own library
  loader (\<open>PyPDFLoader\<close>, \<open>TextLoader\<close>, \<open>CSVLoader\<close>) on the path;
  \<open>load_from_uploaded_file\<close> runs the same library loader on the temporary file. Neither
  raises the unsupported-extension error.
\<close>

theorem supported_extension_in_any_case:
  assumes "lower (suffix name) \<in> SUPPORTED_EXTENSIONS"
  shows "(let extension = lower (suffix name);
              handler = (if extension = ''.pdf'' then load_pdf lib
                         else if extension = ''.txt'' then load_text lib
                         else load_csv lib);
              library_loader = (if extension = ''.pdf'' then PyPDFLoader lib
                                else if extension = ''.txt'' then TextLoader lib
                                else CSVLoader lib);
              (tmp_path, w1) = NamedTemporaryFile w extension;
              w2 = file_write w1 tmp_path (drop (position file) (content file))
          in loaders lib extension = Some handler
           \<and> load_file lib fs name = handler fs name
           \<and> load_file lib fs name
               = (case library_loader fs (path_str name) of
                    Inl e \<Rightarrow> Inl (LoaderRaised e)
                  | Inr documents \<Rightarrow> Inr documents)
           \<and> (\<forall>x. load_file lib fs name \<noteq> Inl (UnsupportedExtension x))
           \<and> (\<forall>x. fst (load_from_uploaded_file lib w file name) \<noteq> Inl (UnsupportedExtension x))
           \<and> (\<not> closed file \<longrightarrow>
                fst (load_from_uploaded_file lib w file name)
                  = (case library_loader (files w2) (path_str tmp_path) of
                       Inl e \<Rightarrow> Inl (LoaderRaised e)
                     | Inr documents \<Rightarrow>
                         Inr (map (\<lambda>doc. doc\<lparr>metadata := (metadata doc)(''source'' \<mapsto> MStr name)\<rparr>)
                                documents))))"
proof -
  let ?e = "lower (suffix name)"
  let ?handler = "if ?e = ''.pdf'' then load_pdf lib else if ?e = ''.txt'' then load_text lib
                  else load_csv lib"
  let ?library_loader = "if ?e = ''.pdf'' then PyPDFLoader lib
                         else if ?e = ''.txt'' then TextLoader lib else CSVLoader lib"
  have l: "loaders lib ?e = Some ?handler"
    using loaders_cases [OF assms] .
  note nu = loader_never_unsupported [OF l]
  note lb = loaders_library [OF assms l]
  have a: "load_file lib fs name = ?handler fs name"
    using assms l by (rule load_file_supported)
  have t: "load_file lib fs' (fst (NamedTemporaryFile w ?e))
             = ?handler fs' (fst (NamedTemporaryFile w ?e))" for fs'
    using assms l by (rule load_file_tmp)
  have b: "fst (load_from_uploaded_file lib w file name) \<noteq> Inl (UnsupportedExtension x)" for x
    using assms t nu
    by (auto simp: load_from_uploaded_file_def Let_def file_read_def
        split: prod.splits sum.splits)
  have c: "fst (load_from_uploaded_file lib w file name)
      = (case ?handler (files (file_write w1 tmp_path (drop (position file) (content file))))
                tmp_path of
           Inl e \<Rightarrow> Inl e
         | Inr documents \<Rightarrow>
             Inr (map (\<lambda>doc. doc\<lparr>metadata := (metadata doc)(''source'' \<mapsto> MStr name)\<rparr>)
                    documents))"
    if "\<not> closed file" "NamedTemporaryFile w ?e = (tmp_path, w1)" for tmp_path w1
    using assms t that
    by (auto simp: load_from_uploaded_file_def Let_def file_read_def
        split: prod.splits sum.splits)
  have d: "fst (load_from_uploaded_file lib w file name)
      = (case ?library_loader (files (file_write w1 tmp_path (drop (position file) (content file))))
                (path_str tmp_path) of
           Inl e \<Rightarrow> Inl (LoaderRaised e)
         | Inr documents \<Rightarrow>
             Inr (map (\<lambda>doc. doc\<lparr>metadata := (metadata doc)(''source'' \<mapsto> MStr name)\<rparr>)
                    documents))"
    if "\<not> closed file" "NamedTemporaryFile w ?e = (tmp_path, w1)" for tmp_path w1
    unfolding c [OF that] lb by (simp split: sum.splits)
  have a': "load_file lib fs name
      = (case ?library_loader fs (path_str name) of
           Inl e \<Rightarrow> Inl (LoaderRaised e)
         | Inr documents \<Rightarrow> Inr documents)"
    unfolding a lb ..
  show ?thesis
    unfolding Let_def
    using l a a' nu b d by (auto split: prod.splits)
qed

lemma suffixes_mixed_case:
  "lower (suffix ''Notes.TXT'') = ''.txt''" "lower (suffix ''data.Csv'') = ''.csv''"
  by (simp_all add: lower_def suffix_def path_name_def lower_char_def upper_letters_def
      lower_letters_def)

lemmas three_loaders_defs =
  three_loaders_def page_loader_def row_loader_def whole_file_loader_def example_world_def
  upload_of_def

theorem supported_extension_in_any_case_witness:
  "lower (suffix ''REPORT.PDF'') = ''.pdf''
   \<and> loaders three_loaders ''.pdf'' = Some (load_pdf three_loaders)
   \<and> load_file three_loaders [''REPORT.PDF'' \<mapsto> ''abc''] ''REPORT.PDF''
       = Inr [\<lparr>page_content = ''abc'',
               metadata = [''page'' \<mapsto> MInt 0, ''source'' \<mapsto> MStr ''REPORT.PDF'']\<rparr>]
   \<and> fst (load_from_uploaded_file three_loaders example_world (upload_of ''abc'') ''REPORT.PDF'')
       = Inr [\<lparr>page_content = ''abc'',
               metadata = [''page'' \<mapsto> MInt 0, ''source'' \<mapsto> MStr ''REPORT.PDF'']\<rparr>]
   \<and> load_file three_loaders [''Notes.TXT'' \<mapsto> ''abc''] ''Notes.TXT''
       = Inr [\<lparr>page_content = ''abc'', metadata = [''source'' \<mapsto> MStr ''Notes.TXT'']\<rparr>]
   \<and> load_file three_loaders [''data.Csv'' \<mapsto> ''abc''] ''data.Csv''
       = Inr [\<lparr>page_content = ''abc'',
               metadata = [''row'' \<mapsto> MInt 0, ''source'' \<mapsto> MStr ''data.Csv'']\<rparr>]"
  using supported_extension_in_any_case
    [of "''REPORT.PDF''" three_loaders example_world "upload_of ''abc''"
        "[''REPORT.PDF'' \<mapsto> ''abc'']"]
  by (simp add: loading_defs three_loaders_defs)

section \<open>The source of an uploaded document\<close>

lemma create_documents_metadata:
  "create_documents ts texts ms = Inr docs \<Longrightarrow> \<forall>d\<in>set docs. metadata d \<in> set ms"
  by (induction ts texts ms arbitrary: docs rule: create_documents.induct)
     (auto split: sum.splits)

lemma split_documents_metadata:
  assumes "split_documents p documents = Inr chunks" "c \<in> set chunks"
  shows "\<exists>d\<in>set documents. metadata c = metadata d"
  using create_documents_metadata [of "text_splitter p" "map page_content documents"
      "map metadata documents" chunks] assms
  by (auto simp: split_documents_def splitter_split_documents_def)

lemma load_from_uploaded_file_source:
  assumes "fst (load_from_uploaded_file lib w file filename) = Inr documents" "d \<in> set documents"
  shows "metadata d ''source'' = Some (MStr filename)"
  using assms
  by (auto simp: load_from_uploaded_file_def Let_def split: if_splits prod.splits sum.splits)

text \<open>
  C2: every document that \<open>load_from_uploaded_file\<close> returns, and every chunk that
  \<open>process_upload\<close> returns, has the original filename under the metadata key
  \<open>source\<close>, whatever the temporary path was.
\<close>

theorem upload_source_is_filename:
  "(fst (load_from_uploaded_file lib w file filename) = Inr documents \<longrightarrow>
      (\<forall>d\<in>set documents. metadata d ''source'' = Some (MStr filename)))
   \<and> (fst (process_upload lib p w file filename) = Inr chunks \<longrightarrow>
      (\<forall>c\<in>set chunks. metadata c ''source'' = Some (MStr filename)))"
proof (intro conjI impI ballI)
  fix d assume "fst (load_from_uploaded_file lib w file filename) = Inr documents" "d \<in> set documents"
  then show "metadata d ''source'' = Some (MStr filename)"
    by (rule load_from_uploaded_file_source)
next
  fix c assume r: "fst (process_upload lib p w file filename) = Inr chunks" and c: "c \<in> set chunks"
  obtain r0 w' file' where l: "load_from_uploaded_file lib w file filename = (r0, w', file')"
    by (cases "load_from_uploaded_file lib w file filename") auto
  with r obtain documents where d: "r0 = Inr documents" "split_documents p documents = Inr chunks"
    by (cases r0) (auto simp: process_upload_def)
  from split_documents_metadata [OF d(2) c] obtain d0
    where d0: "d0 \<in> set documents" "metadata c = metadata d0" by auto
  have "metadata d0 ''source'' = Some (MStr filename)"
    using load_from_uploaded_file_source [of lib w "file" filename documents d0] l d(1) d0(1) by simp
  with d0(2) show "metadata c ''source'' = Some (MStr filename)" by simp
qed

theorem upload_source_is_filename_witness:
  "fst (load_from_uploaded_file example_library example_world (upload_of ''aaaa bbbb cccc'')
          ''report.pdf'')
     = Inr [\<lparr>page_content = ''aaaa bbbb cccc'', metadata = [''source'' \<mapsto> MStr ''report.pdf'']\<rparr>]
   \<and> fst (process_upload example_library (DocumentProcessor example_settings None None)
          example_world (upload_of ''aaaa bbbb cccc'') ''report.pdf'')
     = Inr [\<lparr>page_content = ''aaaa bbbb'', metadata = [''source'' \<mapsto> MStr ''report.pdf'']\<rparr>,
            \<lparr>page_content = ''cccc'', metadata = [''source'' \<mapsto> MStr ''report.pdf'']\<rparr>]
   \<and> list_all (\<lambda>c. metadata c ''source'' = Some (MStr ''report.pdf''))
        [\<lparr>page_content = ''aaaa bbbb'', metadata = [''source'' \<mapsto> MStr ''report.pdf'']\<rparr>,
         \<lparr>page_content = ''cccc'', metadata = [''source'' \<mapsto> MStr ''report.pdf'']\<rparr>]"
  using upload_source_is_filename
    [of example_library example_world "upload_of ''aaaa bbbb cccc''" "''report.pdf''"
        "[\<lparr>page_content = ''aaaa bbbb cccc'', metadata = [''source'' \<mapsto> MStr ''report.pdf'']\<rparr>]"
        "DocumentProcessor example_settings None None"
        "[\<lparr>page_content = ''aaaa bbbb'', metadata = [''source'' \<mapsto> MStr ''report.pdf'']\<rparr>,
          \<lparr>page_content = ''cccc'', metadata = [''source'' \<mapsto> MStr ''report.pdf'']\<rparr>]"]
  by (simp add: example_upload_pdf example_process_upload [OF example_upload_pdf])

section \<open>The temporary file\<close>

text \<open>
  When the stream can be read, the temporary file is gone after the call, whether the
  loader returned or raised.
\<close>

lemma temp_file_removed_after_read:
  assumes "lower (suffix filename) \<in> SUPPORTED_EXTENSIONS" "\<not> closed file"
  shows "files (fst (snd (load_from_uploaded_file lib w file filename)))
           (fst (NamedTemporaryFile w (lower (suffix filename)))) = None"
  using assms
  by (simp add: load_from_uploaded_file_def file_read_def unlink_def file_write_def Let_def
      split: prod.splits sum.splits)

text \<open>
  C3: the claim is that the temporary file is deleted on every way out, also when writing
  the uploaded bytes fails. Reading a closed stream raises inside the \<open>with\<close> block,
  before the \<open>try\<close> whose \<open>finally\<close> deletes the file: the call raises and the empty
  temporary file stays.
\<close>

theorem temp_file_left_behind_when_read_fails:
  "load_from_uploaded_file lib example_world closed_upload ''a.txt''
     = (Inl ClosedFile,
        example_world\<lparr>files := [''/tmp/tmpabcdefgh.txt'' \<mapsto> []], entropy := []\<rparr>,
        closed_upload)"
  by (simp add: load_from_uploaded_file_def lower_def suffix_def path_name_def lower_char_def upper_letters_def lower_letters_def
      SUPPORTED_EXTENSIONS_def NamedTemporaryFile_def example_world_def random_name_def
      characters_def file_read_def closed_upload_def Let_def)

section \<open>The sizes a processor stores\<close>

lemma nonzero_sizes_are_stored:
  "cs \<noteq> 0 \<Longrightarrow> chunk_size (DocumentProcessor st (Some cs) co) = cs"
  "co' \<noteq> 0 \<Longrightarrow> chunk_overlap (DocumentProcessor st cs' (Some co')) = co'"
  "chunk_size (DocumentProcessor st None co) = settings_chunk_size st"
  "chunk_overlap (DocumentProcessor st cs' None) = settings_chunk_overlap st"
  by (simp_all add: DocumentProcessor_def py_or_def Let_def)

text \<open>
  C7: the claim is that an explicitly supplied size is stored as it is. A supplied
  overlap of \<open>0\<close> is false for \<open>or\<close>, so the processor and its splitter get the default
  of the settings, here \<open>2\<close>.
\<close>

theorem explicit_zero_overlap_replaced_by_default:
  "chunk_overlap (DocumentProcessor example_settings (Some 500) (Some 0)) = 2
   \<and> ts_chunk_overlap (text_splitter (DocumentProcessor example_settings (Some 500) (Some 0))) = 2"
  by (simp add: DocumentProcessor_def py_or_def example_settings_def initialize_text_splitter_def)

section \<open>What the upload route stores\<close>

lemma upload_document_hands_loaded_documents:
  assumes "upload_filename f = Some name" "name \<noteq> []"
    and "fst (load_from_uploaded_file lib w (upload_stream f) name) = Inr documents"
  shows "received (snd (snd (upload_document st lib w vs f))) = received vs @ [documents]"
  using assms
  by (auto simp: upload_document_def add_documents_def Let_def split: prod.splits sum.splits)

text \<open>
  C6: the claim is that the route hands the vector store the chunks of \<open>process_upload\<close>.
  The route calls \<open>load_from_uploaded_file\<close>, which does not split: for a text of 14
  characters and a chunk size of 9 the store receives the one unsplit document, where
  \<open>process_upload\<close> returns two chunks.
\<close>

theorem upload_route_stores_unsplit_document:
  "received (snd (snd (upload_document example_settings example_library example_world
       \<lparr>received = []\<rparr>
       \<lparr>upload_filename = Some ''notes.txt'', upload_stream = upload_of ''aaaa bbbb cccc''\<rparr>)))
     = [[\<lparr>page_content = ''aaaa bbbb cccc'', metadata = [''source'' \<mapsto> MStr ''notes.txt'']\<rparr>]]
   \<and> fst (process_upload example_library (DocumentProcessor example_settings None None)
          example_world (upload_of ''aaaa bbbb cccc'') ''notes.txt'')
     = Inr [\<lparr>page_content = ''aaaa bbbb'', metadata = [''source'' \<mapsto> MStr ''notes.txt'']\<rparr>,
            \<lparr>page_content = ''cccc'', metadata = [''source'' \<mapsto> MStr ''notes.txt'']\<rparr>]"
  by (simp add: upload_document_def add_documents_def example_upload_txt
      example_process_upload [OF example_upload_txt])

section \<open>One embedding provider per process\<close>




text \<open>
  A call that no other thread interrupts is \<open>get_embedding_model\<close>: its three steps in
  a row return what the function returns and leave the state the function leaves.
\<close>

lemma uninterrupted_call:
  "interleave accepts st [0, 0, 0] ([Calling], pr)
     = ([Returned (fst (get_embedding_model accepts st pr))],
        snd (get_embedding_model accepts st pr))"
  by (cases "cache pr") (simp_all add: get_embedding_model_def Let_def)




section \<open>The length of a chunk\<close>

lemma length_strip_le: "length (strip s) \<le> length s"
proof -
  have "length (strip s) \<le> length (dropWhile isspace s)"
    unfolding strip_def using length_dropWhile_le [of isspace "rev (dropWhile isspace s)"] by simp
  also have "\<dots> \<le> length s" by (rule length_dropWhile_le)
  finally show ?thesis .
qed

lemma join_empty: "join [] xs = concat xs"
  by (induction "[]::string" xs rule: join.induct) auto

lemma join_docs_length:
  assumes "join_docs cur [] = Some doc"
  shows "int (length doc) \<le> (\<Sum>x\<leftarrow>cur. int (length x))"
proof -
  have "doc = strip (concat cur)"
    using assms by (auto simp: join_docs_def join_empty Let_def split: if_splits)
  then have "length doc \<le> length (concat cur)" by (simp add: length_strip_le)
  also have "int (length (concat cur)) = (\<Sum>x\<leftarrow>cur. int (length x))"
    by (induction cur) auto
  finally show ?thesis by simp
qed

lemma emit_bounded:
  assumes "\<forall>x\<in>set docs. int (length x) \<le> n" "(\<Sum>x\<leftarrow>cur. int (length x)) \<le> n"
  shows "\<forall>x\<in>set (emit docs cur []). int (length x) \<le> n"
  using assms join_docs_length [of cur]
  by (auto simp: emit_def split: option.splits)

lemma pop_while_sum:
  assumes "pop_while ts 0 len cur t = Inr (cur', t')" "t = (\<Sum>x\<leftarrow>cur. int (length x))"
  shows "t' = (\<Sum>x\<leftarrow>cur'. int (length x)) \<and> (t' + len \<le> ts_chunk_size ts \<or> t' \<le> 0)"
  using assms
  by (induction cur arbitrary: t) (auto split: if_splits)

lemma sum_lengths_nonneg: "0 \<le> (\<Sum>x\<leftarrow>xs. int (length x))"
  by (induction xs) auto

lemma merge_loop_bounded:
  assumes "merge_loop ts [] docs cur t splits = Inr out"
    and "\<forall>d\<in>set splits. int (length d) < ts_chunk_size ts"
    and "t = (\<Sum>x\<leftarrow>cur. int (length x))" "t \<le> ts_chunk_size ts"
    and "\<forall>x\<in>set docs. int (length x) \<le> ts_chunk_size ts"
  shows "\<forall>x\<in>set out. int (length x) \<le> ts_chunk_size ts"
  using assms
proof (induction splits arbitrary: docs cur t)
  case Nil
  then show ?case using emit_bounded [of docs "ts_chunk_size ts" cur] by auto
next
  case (Cons d ds)
  let ?n = "ts_chunk_size ts"
  let ?len = "int (length d)"
  have len: "?len < ?n" using Cons.prems(2) by simp
  show ?case
  proof (cases "t + ?len > ?n \<and> cur \<noteq> []")
    case True
    then obtain cur' t' where p: "pop_while ts 0 ?len cur t = Inr (cur', t')"
      and m: "merge_loop ts [] (emit docs cur []) (cur' @ [d]) (t' + ?len) ds = Inr out"
      using Cons.prems(1) by (auto simp: Let_def split: sum.splits)
    from pop_while_sum [OF p Cons.prems(3)]
    have s: "t' = (\<Sum>x\<leftarrow>cur'. int (length x))" and f: "t' + ?len \<le> ?n \<or> t' \<le> 0" by auto
    have "t' + ?len \<le> ?n"
      using f len s sum_lengths_nonneg [of cur'] by auto
    moreover have "\<forall>x\<in>set (emit docs cur []). int (length x) \<le> ?n"
      using emit_bounded [of docs ?n cur] Cons.prems(3,4,5) by simp
    ultimately show ?thesis
      using Cons.IH [OF m] Cons.prems(2) s by simp
  next
    case False
    then have m: "merge_loop ts [] docs (cur @ [d]) (t + ?len) ds = Inr out"
      using Cons.prems(1) by (auto simp: Let_def split: if_splits)
    have "t + ?len \<le> ?n"
      using False len Cons.prems(3) by (cases "cur = []") auto
    then show ?thesis
      using Cons.IH [OF m] Cons.prems(2,3,5) by simp
  qed
qed

lemma merge_splits_bounded:
  assumes "merge_splits ts good [] = Inr out"
    and "\<forall>d\<in>set good. int (length d) < ts_chunk_size ts" "0 < ts_chunk_size ts"
  shows "\<forall>x\<in>set out. int (length x) \<le> ts_chunk_size ts"
  using merge_loop_bounded [of ts "[]" "[]" 0 good out] assms
  by (simp add: merge_splits_def)

lemma split_loop_bounded:
  assumes "split_loop ts ns recurse fin good splits = Inr out"
    and "0 < ts_chunk_size ts"
    and "\<forall>x\<in>set fin. int (length x) \<le> ts_chunk_size ts"
    and "\<forall>g\<in>set good. int (length g) < ts_chunk_size ts"
    and "ns = [] \<longrightarrow> (\<forall>s\<in>set splits. int (length s) \<le> ts_chunk_size ts)"
    and "ns \<noteq> [] \<longrightarrow> (\<forall>s\<in>set splits. \<forall>r. recurse s = Inr r \<longrightarrow>
           (\<forall>x\<in>set r. int (length x) \<le> ts_chunk_size ts))"
  shows "\<forall>x\<in>set out. int (length x) \<le> ts_chunk_size ts"
  using assms
proof (induction splits arbitrary: fin good)
  case Nil
  then show ?case
    using merge_splits_bounded [of ts good]
    by (auto split: if_splits sum.splits)
next
  case (Cons s ss)
  let ?n = "ts_chunk_size ts"
  show ?case
  proof (cases "int (length s) < ?n")
    case True
    then have "split_loop ts ns recurse fin (good @ [s]) ss = Inr out"
      using Cons.prems(1) by simp
    from Cons.IH [OF this] True Cons.prems show ?thesis by simp
  next
    case False
    then obtain merged other where
      m: "(if good \<noteq> [] then merge_splits ts good [] else Inr []) = Inr merged"
      and o: "(if ns = [] then Inr [s] else recurse s) = Inr other"
      and r: "split_loop ts ns recurse (fin @ merged @ other) [] ss = Inr out"
      using Cons.prems(1) by (auto split: sum.splits)
    have "\<forall>x\<in>set merged. int (length x) \<le> ?n"
      using m merge_splits_bounded [of ts good merged] Cons.prems(2,4)
      by (auto split: if_splits)
    moreover have "\<forall>x\<in>set other. int (length x) \<le> ?n"
      using o Cons.prems(5,6) by (auto split: if_splits)
    ultimately show ?thesis
      using Cons.IH [OF r] Cons.prems(2,3,5,6) by auto
  qed
qed

lemma find_separator_ends:
  assumes "seps \<noteq> []" "last seps = []"
  shows "\<exists>sep ns. find_separator seps body = Some (sep, ns)
           \<and> ((sep = [] \<and> ns = []) \<or> (sep \<noteq> [] \<and> ns \<noteq> [] \<and> last ns = []))"
  using assms by (induction seps) (auto split: if_splits)

lemma regex_characters:
  "\<forall>s\<in>set (split_text_with_regex body []). length s = 1"
  by (auto simp: split_text_with_regex_def)

lemma split_text_rec_bounded:
  assumes "split_text_rec ts body seps = Inr out"
    and "0 < ts_chunk_size ts" "seps \<noteq> []" "last seps = []"
  shows "\<forall>x\<in>set out. int (length x) \<le> ts_chunk_size ts"
  using assms
proof (induction ts body seps arbitrary: out rule: split_text_rec.induct)
  case (1 ts body seps)
  let ?n = "ts_chunk_size ts"
  from find_separator_ends [OF "1.prems"(3,4), of body] obtain sep ns
    where f: "find_separator seps body = Some (sep, ns)"
      and c: "(sep = [] \<and> ns = []) \<or> (sep \<noteq> [] \<and> ns \<noteq> [] \<and> last ns = [])"
    by blast
  have l: "split_loop ts ns (\<lambda>s. split_text_rec ts s ns) [] []
            (split_text_with_regex body sep) = Inr out"
    using "1.prems"(1,3) f by (simp add: split_text_rec.simps [of ts body seps])
  from c show ?case
  proof
    assume e: "sep = [] \<and> ns = []"
    have "\<forall>s\<in>set (split_text_with_regex body sep). int (length s) \<le> ?n"
      using regex_characters [of body] e "1.prems"(2) by auto
    with split_loop_bounded [OF l "1.prems"(2)] e show ?thesis by simp
  next
    assume n: "sep \<noteq> [] \<and> ns \<noteq> [] \<and> last ns = []"
    have "\<forall>r. split_text_rec ts s ns = Inr r \<longrightarrow> (\<forall>x\<in>set r. int (length x) \<le> ?n)" for s
      using "1.IH" [OF "1.prems"(3) f refl _ "1.prems"(2)] n by blast
    with split_loop_bounded [OF l "1.prems"(2)] n show ?thesis by simp
  qed
qed

lemma split_text_bounded:
  assumes "split_text (initialize_text_splitter cs co) body = Inr out" "0 < cs"
  shows "\<forall>x\<in>set out. int (length x) \<le> cs"
  using split_text_rec_bounded [of "initialize_text_splitter cs co" body
      "separators (initialize_text_splitter cs co)" out] assms
  by (simp add: split_text_def initialize_text_splitter_def)

lemma create_documents_bounded:
  assumes "create_documents (initialize_text_splitter cs co) texts ms = Inr docs" "0 < cs"
  shows "\<forall>d\<in>set docs. int (length (page_content d)) \<le> cs"
  using assms
proof (induction "initialize_text_splitter cs co" texts ms arbitrary: docs
    rule: create_documents.induct)
  case (1 ms)
  then show ?case by simp
next
  case (2 body texts)
  then show ?case by simp
next
  case (3 body texts m ms)
  from "3.prems"(1) obtain chunks rest
    where s: "split_text (initialize_text_splitter cs co) body = Inr chunks"
      and r: "create_documents (initialize_text_splitter cs co) texts ms = Inr rest"
      and d: "docs = map (\<lambda>chunk. \<lparr>page_content = chunk, metadata = m\<rparr>) chunks @ rest"
    by (auto split: sum.splits)
  from "3.hyps" [OF s r "3.prems"(2)] split_text_bounded [OF s "3.prems"(2)] d
  show ?case by auto
qed

lemma split_documents_bounded:
  assumes "split_documents (DocumentProcessor st gs go) documents = Inr chunks"
    and "0 < chunk_size (DocumentProcessor st gs go)"
  shows "\<forall>c\<in>set chunks.
           int (length (page_content c)) \<le> chunk_size (DocumentProcessor st gs go)"
  using create_documents_bounded
    [of "py_or gs (settings_chunk_size st)" "py_or go (settings_chunk_overlap st)"
        "map page_content documents" "map metadata documents" chunks] assms
  by (simp add: split_documents_def splitter_split_documents_def DocumentProcessor_def Let_def)

text \<open>
  C1: with a positive chunk size, every chunk that \<open>process_file\<close> or \<open>process_upload\<close>
  returns has at most \<open>chunk_size\<close> characters. The separator list of the processor ends
  with the empty separator, under which a text is cut into its characters, so no piece
  is indivisible and the exception of the claim never applies.
\<close>

theorem chunks_within_chunk_size:
  assumes "0 < chunk_size (DocumentProcessor st gs go)"
  shows "(process_file lib (DocumentProcessor st gs go) fs file_path = Inr chunks \<longrightarrow>
            (\<forall>c\<in>set chunks.
               int (length (page_content c)) \<le> chunk_size (DocumentProcessor st gs go)))
       \<and> (fst (process_upload lib (DocumentProcessor st gs go) w file filename) = Inr chunks' \<longrightarrow>
            (\<forall>c\<in>set chunks'.
               int (length (page_content c)) \<le> chunk_size (DocumentProcessor st gs go)))"
proof (intro conjI impI)
  assume "process_file lib (DocumentProcessor st gs go) fs file_path = Inr chunks"
  then obtain documents
    where "split_documents (DocumentProcessor st gs go) documents = Inr chunks"
    by (auto simp: process_file_def split: sum.splits)
  from split_documents_bounded [OF this assms]
  show "\<forall>c\<in>set chunks. int (length (page_content c)) \<le> chunk_size (DocumentProcessor st gs go)" .
next
  assume "fst (process_upload lib (DocumentProcessor st gs go) w file filename) = Inr chunks'"
  then obtain documents
    where "split_documents (DocumentProcessor st gs go) documents = Inr chunks'"
    by (auto simp: process_upload_def split: prod.splits sum.splits)
  from split_documents_bounded [OF this assms]
  show "\<forall>c\<in>set chunks'. int (length (page_content c)) \<le> chunk_size (DocumentProcessor st gs go)" .
qed

lemma chunk_size_example: "chunk_size (DocumentProcessor example_settings None None) = 9"
  by (simp add: DocumentProcessor_def py_or_def example_settings_def)

lemma example_load_file:
  "load_file example_library [''notes.txt'' \<mapsto> ''aaaa bbbb cccc''] ''notes.txt''
     = Inr [\<lparr>page_content = ''aaaa bbbb cccc'', metadata = [''source'' \<mapsto> MStr ''notes.txt'']\<rparr>]"
  by (simp add: loading_defs example_defs)

lemma example_process_file:
  "process_file example_library (DocumentProcessor example_settings None None)
       [''notes.txt'' \<mapsto> ''aaaa bbbb cccc''] ''notes.txt''
     = Inr [\<lparr>page_content = ''aaaa bbbb'', metadata = [''source'' \<mapsto> MStr ''notes.txt'']\<rparr>,
            \<lparr>page_content = ''cccc'', metadata = [''source'' \<mapsto> MStr ''notes.txt'']\<rparr>]"
  by (simp add: process_file_def split_documents_def splitter_split_documents_def
      example_processor example_split example_load_file)

theorem chunks_within_chunk_size_witness:
  "0 < chunk_size (DocumentProcessor example_settings None None)
   \<and> process_file example_library (DocumentProcessor example_settings None None)
       [''notes.txt'' \<mapsto> ''aaaa bbbb cccc''] ''notes.txt''
     = Inr [\<lparr>page_content = ''aaaa bbbb'', metadata = [''source'' \<mapsto> MStr ''notes.txt'']\<rparr>,
            \<lparr>page_content = ''cccc'', metadata = [''source'' \<mapsto> MStr ''notes.txt'']\<rparr>]
   \<and> fst (process_upload example_library (DocumentProcessor example_settings None None)
          example_world (upload_of ''aaaa bbbb cccc'') ''notes.txt'')
     = Inr [\<lparr>page_content = ''aaaa bbbb'', metadata = [''source'' \<mapsto> MStr ''notes.txt'']\<rparr>,
            \<lparr>page_content = ''cccc'', metadata = [''source'' \<mapsto> MStr ''notes.txt'']\<rparr>]
   \<and> list_all (\<lambda>c. int (length (page_content c))
                   \<le> chunk_size (DocumentProcessor example_settings None None))
        [\<lparr>page_content = ''aaaa bbbb'', metadata = [''source'' \<mapsto> MStr ''notes.txt'']\<rparr>,
         \<lparr>page_content = ''cccc'', metadata = [''source'' \<mapsto> MStr ''notes.txt'']\<rparr>]"
  using chunks_within_chunk_size
    [of example_settings None None example_library "[''notes.txt'' \<mapsto> ''aaaa bbbb cccc'']"
        "''notes.txt''"
        "[\<lparr>page_content = ''aaaa bbbb'', metadata = [''source'' \<mapsto> MStr ''notes.txt'']\<rparr>,
          \<lparr>page_content = ''cccc'', metadata = [''source'' \<mapsto> MStr ''notes.txt'']\<rparr>]"
        example_world "upload_of ''aaaa bbbb cccc''" "''notes.txt''"
        "[\<lparr>page_content = ''aaaa bbbb'', metadata = [''source'' \<mapsto> MStr ''notes.txt'']\<rparr>,
          \<lparr>page_content = ''cccc'', metadata = [''source'' \<mapsto> MStr ''notes.txt'']\<rparr>]"]
  by (simp add: chunk_size_example example_process_file
      example_process_upload [OF example_upload_txt])

section \<open>Splitting short documents again\<close>

lemma re_split_concat:
  "re_split sep body = (p, ps) \<Longrightarrow> p @ concat (map (\<lambda>q. sep @ q) ps) = body"
proof (induction sep body arbitrary: p ps rule: re_split.induct)
  case (1 sep)
  then show ?case by simp
next
  case (2 sep c cs)
  show ?case
  proof (cases "sep \<noteq> [] \<and> take (length sep) (c # cs) = sep")
    case True
    obtain p' ps' where r: "re_split sep (drop (length sep) (c # cs)) = (p', ps')"
      by (cases "re_split sep (drop (length sep) (c # cs))") auto
    from "2.IH"(1) [OF True r] have "p' @ concat (map (\<lambda>q. sep @ q) ps') = drop (length sep) (c # cs)" .
    moreover have "p = [] \<and> ps = p' # ps'"
      using "2.prems" True r by simp
    moreover have "sep @ drop (length sep) (c # cs) = c # cs"
      using True append_take_drop_id [of "length sep" "c # cs"] by simp
    ultimately show ?thesis by simp
  next
    case False
    obtain p' ps' where r: "re_split sep cs = (p', ps')"
      by (cases "re_split sep cs") auto
    from "2.IH"(2) [OF False r] have "p' @ concat (map (\<lambda>q. sep @ q) ps') = cs" .
    moreover have "p = c # p' \<and> ps = ps'"
      using "2.prems" False r by auto
    ultimately show ?thesis by simp
  qed
qed

lemma concat_filter_nonempty: "concat (filter (\<lambda>s. s \<noteq> []) xs) = concat xs"
  by (induction xs) auto

lemma regex_concat: "concat (split_text_with_regex body sep) = body"
proof (cases "sep = []")
  case True
  then show ?thesis
    by (simp add: split_text_with_regex_def concat_filter_nonempty)
next
  case False
  obtain p ps where r: "re_split sep body = (p, ps)" by (cases "re_split sep body") auto
  have "concat (split_text_with_regex body sep) = p @ concat (map (\<lambda>q. sep @ q) ps)"
    using False r concat_filter_nonempty [of "p # map (\<lambda>q. sep @ q) ps"]
    by (simp add: split_text_with_regex_def del: filter.simps)
  with re_split_concat [OF r] show ?thesis by simp
qed

lemma regex_nonempty: "\<forall>s\<in>set (split_text_with_regex body sep). s \<noteq> []"
  by (simp add: split_text_with_regex_def)

lemma sum_length_concat: "(\<Sum>x\<leftarrow>xs. int (length x)) = int (length (concat xs))"
  by (induction xs) auto

lemma merge_loop_fits:
  assumes "t + (\<Sum>x\<leftarrow>splits. int (length x)) \<le> ts_chunk_size ts"
  shows "merge_loop ts [] docs cur t splits = Inr (emit docs (cur @ splits) [])"
  using assms
proof (induction splits arbitrary: cur t)
  case Nil
  then show ?case by simp
next
  case (Cons d ds)
  have "0 \<le> (\<Sum>x\<leftarrow>ds. int (length x))" by (induction ds) auto
  with Cons.prems have "\<not> t + int (length d) > ts_chunk_size ts" by simp
  moreover have "merge_loop ts [] docs (cur @ [d]) (t + int (length d)) ds
      = Inr (emit docs ((cur @ [d]) @ ds) [])"
    using Cons.prems by (intro Cons.IH) simp
  ultimately show ?case by (simp add: Let_def)
qed

lemma merge_splits_fits:
  assumes "int (length (concat splits)) \<le> ts_chunk_size ts"
    and "strip (concat splits) = concat splits" "concat splits \<noteq> []"
  shows "merge_splits ts splits [] = Inr [concat splits]"
  using merge_loop_fits [of 0 splits ts "[]" "[]"] assms
  by (simp add: merge_splits_def sum_length_concat emit_def join_docs_def join_empty)

lemma split_loop_all_good:
  assumes "\<forall>s\<in>set splits. int (length s) < ts_chunk_size ts"
  shows "split_loop ts ns recurse fin good splits =
     (if good @ splits \<noteq> []
      then (case merge_splits ts (good @ splits) [] of
              Inl e \<Rightarrow> Inl e
            | Inr merged \<Rightarrow> Inr (fin @ merged))
      else Inr fin)"
  using assms by (induction splits arbitrary: good) auto

lemma split_loop_no_recursion:
  "split_loop ts [] r1 fin good splits = split_loop ts [] r2 fin good splits"
  by (induction splits arbitrary: fin good) (auto split: sum.splits)

lemma only_piece:
  assumes "\<forall>x\<in>set xs. x \<noteq> []" "s \<in> set xs" "length (concat xs) \<le> length s"
  shows "xs = [s]"
proof -
  from assms(2) obtain ys zs where x: "xs = ys @ s # zs" by (auto simp: in_set_conv_decomp)
  with assms(3) have "concat ys = []" "concat zs = []" by auto
  with assms(1) x have "ys = []" "zs = []" by auto
  with x show ?thesis by simp
qed

lemma split_text_rec_short:
  assumes "body \<noteq> []" "strip body = body" "int (length body) \<le> ts_chunk_size ts" "seps \<noteq> []"
  shows "split_text_rec ts body seps = Inr [body]"
  using assms
proof (induction ts body seps rule: split_text_rec.induct)
  case (1 ts body seps)
  let ?n = "ts_chunk_size ts"
  define choice where "choice = (case find_separator seps body of
      None \<Rightarrow> (last seps, []) | Some r \<Rightarrow> r)"
  obtain sep ns where c: "choice = (sep, ns)" by (cases choice) auto
  let ?splits = "split_text_with_regex body sep"
  have rec: "ns \<noteq> [] \<Longrightarrow> split_text_rec ts body ns = Inr [body]"
  proof -
    assume n: "ns \<noteq> []"
    then have "find_separator seps body = Some (sep, ns)"
      using c by (auto simp: choice_def split: option.splits)
    from "1.IH" [OF "1.prems"(4) this refl "1.prems"(1,2,3) n] show ?thesis .
  qed
  have unfold: "split_text_rec ts body seps =
      split_loop ts ns (\<lambda>s. split_text_rec ts s ns) [] [] ?splits"
    using "1.prems"(4) c split_loop_no_recursion [of ts "\<lambda>s. Inr [s]" "[]" "[]" _ "\<lambda>s. split_text_rec ts s []"]
    by (auto simp: split_text_rec.simps [of ts body seps] choice_def split: option.splits)
  have cc: "concat ?splits = body" by (rule regex_concat)
  show ?case
  proof (cases "\<forall>s\<in>set ?splits. int (length s) < ?n")
    case True
    have "?splits \<noteq> []" using cc "1.prems"(1) by auto
    moreover have "merge_splits ts ?splits [] = Inr [body]"
      using merge_splits_fits [of ?splits ts] cc "1.prems"(1,2,3) by simp
    ultimately show ?thesis
      unfolding unfold by (simp add: split_loop_all_good [OF True])
  next
    case False
    then obtain s where s: "s \<in> set ?splits" "?n \<le> int (length s)" by auto
    have "length (concat ?splits) \<le> length s"
      using s(2) "1.prems"(3) cc by simp
    from only_piece [OF regex_nonempty s(1) this] have o: "?splits = [s]" .
    with cc have "s = body" by simp
    with o s(2) rec show ?thesis
      unfolding unfold by simp
  qed
qed

lemma create_documents_short:
  assumes "\<forall>d\<in>set documents. page_content d \<noteq> [] \<and> strip (page_content d) = page_content d
             \<and> int (length (page_content d)) \<le> ts_chunk_size ts"
    and "separators ts \<noteq> []"
  shows "create_documents ts (map page_content documents) (map metadata documents) = Inr documents"
  using assms
proof (induction documents)
  case Nil
  show ?case by simp
next
  case (Cons d ds)
  have "split_text ts (page_content d) = Inr [page_content d]"
    unfolding split_text_def using Cons.prems by (intro split_text_rec_short) auto
  moreover have "create_documents ts (map page_content ds) (map metadata ds) = Inr ds"
    using Cons by simp
  ultimately show ?case by simp
qed

lemma strip_examples:
  "strip ''aaaa bbbb'' = ''aaaa bbbb''" "strip ''cccc'' = ''cccc''" "strip '' a'' = ''a''"
  by (simp_all add: strip_def isspace_def whitespace_def)

lemma split_leading_space:
  "split_text (initialize_text_splitter 9 2) '' a'' = Inr [''a'']"
  by code_simp

text \<open>
  C5, as stated, fails: white space at the ends of a text is trimmed, so the one document
  with the text \<open>'' a''\<close>, shorter than the chunk size, comes back as \<open>''a''\<close>.
\<close>

theorem short_documents_unchanged_counterexample:
  "int (length (page_content \<lparr>page_content = '' a'', metadata = Map.empty\<rparr>))
     \<le> chunk_size (DocumentProcessor example_settings None None)
   \<and> split_documents (DocumentProcessor example_settings None None)
        [\<lparr>page_content = '' a'', metadata = Map.empty\<rparr>]
     = Inr [\<lparr>page_content = ''a'', metadata = Map.empty\<rparr>]
   \<and> split_documents (DocumentProcessor example_settings None None)
        [\<lparr>page_content = '' a'', metadata = Map.empty\<rparr>]
     \<noteq> Inr [\<lparr>page_content = '' a'', metadata = Map.empty\<rparr>]"
  by (simp add: chunk_size_example split_documents_def splitter_split_documents_def
      example_processor split_leading_space)

text \<open>
  C5, amended: a sequence of documents whose texts are not empty, neither start nor end
  with white space and have at most \<open>chunk_size\<close> characters is returned unchanged by
  \<open>split_documents\<close>.
\<close>

theorem short_trimmed_documents_unchanged:
  assumes "\<forall>d\<in>set documents. page_content d \<noteq> [] \<and> strip (page_content d) = page_content d
             \<and> int (length (page_content d)) \<le> chunk_size (DocumentProcessor st gs go)"
  shows "split_documents (DocumentProcessor st gs go) documents = Inr documents"
  using create_documents_short [of documents "text_splitter (DocumentProcessor st gs go)"] assms
  by (simp add: split_documents_def splitter_split_documents_def DocumentProcessor_def Let_def
      initialize_text_splitter_def)

theorem short_trimmed_documents_unchanged_witness:
  "strip ''aaaa bbbb'' = ''aaaa bbbb'' \<and> strip ''cccc'' = ''cccc''
   \<and> chunk_size (DocumentProcessor example_settings None None) = 9
   \<and> split_documents (DocumentProcessor example_settings None None)
        [\<lparr>page_content = ''aaaa bbbb'', metadata = [''source'' \<mapsto> MStr ''notes.txt'']\<rparr>,
         \<lparr>page_content = ''cccc'', metadata = [''source'' \<mapsto> MStr ''notes.txt'']\<rparr>]
     = Inr [\<lparr>page_content = ''aaaa bbbb'', metadata = [''source'' \<mapsto> MStr ''notes.txt'']\<rparr>,
            \<lparr>page_content = ''cccc'', metadata = [''source'' \<mapsto> MStr ''notes.txt'']\<rparr>]"
  using short_trimmed_documents_unchanged
    [of "[\<lparr>page_content = ''aaaa bbbb'', metadata = [''source'' \<mapsto> MStr ''notes.txt'']\<rparr>,
          \<lparr>page_content = ''cccc'', metadata = [''source'' \<mapsto> MStr ''notes.txt'']\<rparr>]"
        example_settings None None]
  by (simp add: strip_examples chunk_size_example)

section \<open>The overlap of adjacent chunks\<close>

lemma chars_simps [simp]:
  "chars [] = []" "chars (c # w) = [c] # chars w" "chars (u @ v) = chars u @ chars v"
  "concat (chars w) = w" "length (chars w) = length w" "(chars w = []) = (w = [])"
  by (simp_all add: chars_def)

lemma sum_chars [simp]: "(\<Sum>x\<leftarrow>chars w. int (length x)) = int (length w)"
  by (induction w) auto

lemma pop_while_chars:
  assumes "0 \<le> ts_chunk_overlap ts" "ts_chunk_overlap ts < ts_chunk_size ts"
  shows "pop_while ts 0 1 (chars w) (int (length w))
     = Inr (chars (drop (length w - nat (ts_chunk_overlap ts)) w),
            int (length (drop (length w - nat (ts_chunk_overlap ts)) w)))"
  using assms
proof (induction w)
  case Nil
  then show ?case by simp
next
  case (Cons c w)
  show ?case
  proof (cases "int (length (c # w)) > ts_chunk_overlap ts")
    case True
    then have "length (c # w) - nat (ts_chunk_overlap ts) = Suc (length w - nat (ts_chunk_overlap ts))"
      using Cons.prems by auto
    with True Cons show ?thesis by simp
  next
    case False
    then have "length (c # w) - nat (ts_chunk_overlap ts) = 0"
      using Cons.prems by auto
    with False Cons.prems show ?thesis by simp
  qed
qed

lemma strip_no_space:
  assumes "\<forall>c\<in>set w. \<not> isspace c"
  shows "strip w = w"
proof -
  have "dropWhile isspace w = w" using assms by (cases w) auto
  moreover have "dropWhile isspace (rev w) = rev w"
  proof (cases "rev w")
    case Nil
    then show ?thesis by simp
  next
    case (Cons a l)
    then have "a \<in> set (rev w)" by simp
    then have "\<not> isspace a" using assms by simp
    with Cons show ?thesis by simp
  qed
  ultimately show ?thesis by (simp add: strip_def)
qed

lemma join_chars: "join [] (chars w) = w"
  by (induction w rule: induct_list012) auto

lemma emit_chars:
  assumes "\<forall>c\<in>set w. \<not> isspace c" "w \<noteq> []"
  shows "emit docs (chars w) [] = docs @ [w]"
  using assms strip_no_space [OF assms(1)]
  by (simp add: emit_def join_docs_def join_chars)

lemma windows_short: "length w \<le> n \<Longrightarrow> windows n k w = [w]"
  by (simp add: windows.simps [of n k w])

lemma windows_long:
  "n < length w \<Longrightarrow> k < n \<Longrightarrow> windows n k w = take n w # windows n k (drop (n - k) w)"
  by (simp add: windows.simps [of n k w])

lemma merge_loop_chars:
  assumes "0 \<le> ts_chunk_overlap ts" "ts_chunk_overlap ts < ts_chunk_size ts"
    and "\<forall>c\<in>set (w @ rest). \<not> isspace c"
    and "int (length w) \<le> ts_chunk_size ts" "w \<noteq> [] \<or> rest \<noteq> []"
  shows "merge_loop ts [] docs (chars w) (int (length w)) (chars rest)
     = Inr (docs @ windows (nat (ts_chunk_size ts)) (nat (ts_chunk_overlap ts)) (w @ rest))"
  using assms(3,4,5)
proof (induction rest arbitrary: w docs)
  case Nil
  then show ?case by (simp add: emit_chars windows_short)
next
  case (Cons c r)
  let ?n = "nat (ts_chunk_size ts)" and ?k = "nat (ts_chunk_overlap ts)"
  have kn: "?k < ?n" using assms(1,2) by simp
  show ?case
  proof (cases "int (length w) + 1 \<le> ts_chunk_size ts")
    case True
    have "merge_loop ts [] docs (chars (w @ [c])) (int (length (w @ [c]))) (chars r)
        = Inr (docs @ windows ?n ?k ((w @ [c]) @ r))"
      using Cons.prems True by (intro Cons.IH) auto
    with True show ?thesis by (simp add: Let_def add.commute)
  next
    case False
    with Cons.prems(2) have full: "length w = ?n" by simp
    then have wne: "w \<noteq> []" using kn by auto
    let ?v = "drop (?n - ?k) w"
    have "?n - (?n - ?k) = ?k" using kn by arith
    then have lv: "length ?v = ?k" by (simp only: length_drop full)
    have pop: "pop_while ts 0 1 (chars w) (int (length w)) = Inr (chars ?v, int (length ?v))"
      using pop_while_chars [OF assms(1,2), of w] full by simp
    have em: "emit docs (chars w) [] = docs @ [w]"
      using Cons.prems(1) wne by (intro emit_chars) auto
    have "set ?v \<subseteq> set w" by (rule set_drop_subset)
    then have ns: "\<forall>x\<in>set ((?v @ [c]) @ r). \<not> isspace x"
      using Cons.prems(1) by auto
    have ih: "merge_loop ts [] (docs @ [w]) (chars (?v @ [c])) (int (length (?v @ [c]))) (chars r)
        = Inr ((docs @ [w]) @ windows ?n ?k ((?v @ [c]) @ r))"
      using ns lv kn by (intro Cons.IH) auto
    have "windows ?n ?k (w @ c # r) = w # windows ?n ?k (?v @ c # r)"
      using windows_long [of ?n "w @ c # r" ?k] full kn by simp
    with ih pop em False wne show ?thesis
      by (simp add: Let_def add.commute)
  qed
qed

lemma split_loop_all_long:
  assumes "\<forall>s\<in>set splits. \<not> int (length s) < ts_chunk_size ts"
  shows "split_loop ts [] recurse fin [] splits = Inr (fin @ splits)"
  using assms by (induction splits arbitrary: fin) auto

lemma windows_one: "w \<noteq> [] \<Longrightarrow> windows 1 0 w = chars w"
proof (induction w rule: induct_list012)
  case 1
  then show ?case by simp
next
  case (2 c)
  show ?case by (simp add: windows_short)
next
  case (3 c d r)
  then show ?case by (simp add: windows_long)
qed

lemma contains_subset: "contains s body \<Longrightarrow> set s \<subseteq> set body"
proof (induction body)
  case Nil
  then show ?case by simp
next
  case (Cons c cs)
  from Cons.prems have "take (length s) (c # cs) = s \<or> contains s cs" by simp
  then show ?case
  proof
    assume "take (length s) (c # cs) = s"
    then have "set s = set (take (length s) (c # cs))" by simp
    then show ?thesis using set_take_subset [of "length s" "c # cs"] by blast
  next
    assume "contains s cs"
    with Cons.IH show ?thesis by auto
  qed
qed

lemma find_separator_no_space:
  assumes "\<forall>c\<in>set body. \<not> isspace c"
  shows "find_separator (separators (initialize_text_splitter cs co)) body = Some ([], [])"
proof -
  have sp: "isspace (CHR 0x0A)" "isspace (CHR '' '')"
    by (simp_all add: isspace_def whitespace_def)
  have "\<not> contains s body" if "CHR 0x0A \<in> set s \<or> CHR '' '' \<in> set s" for s
    using contains_subset [of s body] assms sp that by auto
  then show ?thesis
    by (simp add: initialize_text_splitter_def)
qed

lemma regex_chars: "split_text_with_regex body [] = chars body"
  by (simp add: split_text_with_regex_def chars_def filter_map o_def)

lemma split_text_no_space:
  assumes "0 \<le> co" "co < cs" "\<forall>c\<in>set body. \<not> isspace c"
  shows "split_text (initialize_text_splitter cs co) body
     = Inr (if body = [] then [] else windows (nat cs) (nat co) body)"
proof -
  let ?ts = "initialize_text_splitter cs co"
  have sizes: "ts_chunk_size ?ts = cs" "ts_chunk_overlap ?ts = co"
    by (simp_all add: initialize_text_splitter_def)
  have ne: "separators ?ts \<noteq> []" by (simp add: initialize_text_splitter_def)
  have unfold: "split_text ?ts body
      = split_loop ?ts [] (\<lambda>s. split_text_rec ?ts s []) [] [] (chars body)"
    using find_separator_no_space [OF assms(3), of cs co] ne
    by (simp add: split_text_def split_text_rec.simps [of ?ts body "separators ?ts"] regex_chars)
  show ?thesis
  proof (cases "body = []")
    case True
    then show ?thesis unfolding unfold by simp
  next
    case False
    show ?thesis
    proof (cases "1 < cs")
      case True
      then have good: "\<forall>s\<in>set (chars body). int (length s) < ts_chunk_size ?ts"
        by (auto simp: chars_def sizes)
      have "merge_loop ?ts [] [] (chars []) (int (length ([]::string))) (chars body)
          = Inr ([] @ windows (nat (ts_chunk_size ?ts)) (nat (ts_chunk_overlap ?ts)) ([] @ body))"
        using assms False by (intro merge_loop_chars) (simp_all add: sizes)
      then have "merge_splits ?ts (chars body) [] = Inr (windows (nat cs) (nat co) body)"
        by (simp add: merge_splits_def sizes)
      with False show ?thesis
        unfolding unfold by (simp add: split_loop_all_good [OF good])
    next
      case one: False
      with assms have c: "cs = 1" "co = 0" by auto
      have "\<forall>s\<in>set (chars body). \<not> int (length s) < ts_chunk_size ?ts"
        using c(1) by (auto simp: chars_def initialize_text_splitter_def)
      from split_loop_all_long [OF this] False windows_one [of body] show ?thesis
        unfolding unfold by (simp add: c)
    qed
  qed
qed

lemma windows_first: "k < n \<Longrightarrow> windows n k w ! 0 = take n w"
  by (cases "length w \<le> n") (simp_all add: windows_short windows_long)

lemma windows_overlap:
  assumes "k < n" "Suc i < length (windows n k w)"
  shows "length (windows n k w ! i) = n
       \<and> drop (n - k) (windows n k w ! i) = take k (windows n k w ! Suc i)"
  using assms
proof (induction n k w arbitrary: i rule: windows.induct)
  case (1 n k w)
  show ?case
  proof (cases "length w \<le> n")
    case True
    with "1.prems" show ?thesis by (simp add: windows_short)
  next
    case False
    then have long: "n < length w" by simp
    let ?v = "drop (n - k) w"
    have w: "windows n k w = take n w # windows n k ?v"
      using windows_long [OF long "1.prems"(1)] .
    show ?thesis
    proof (cases i)
      case 0
      have "drop (n - k) (take n w) = take k ?v"
        using "1.prems"(1) by (simp add: drop_take)
      moreover have "take k (windows n k ?v ! 0) = take k ?v"
        using "1.prems"(1) by (simp add: windows_first min_def)
      ultimately show ?thesis using 0 w long by simp
    next
      case (Suc j)
      have "Suc j < length (windows n k ?v)" using "1.prems"(2) w Suc by simp
      from "1.IH" [OF _ "1.prems"(1) this] False "1.prems"(1) w Suc show ?thesis by simp
    qed
  qed
qed

lemma split_single_document:
  assumes "split_text (text_splitter p) (page_content d) = Inr pieces"
  shows "split_documents p [d] = Inr (map (\<lambda>chunk. \<lparr>page_content = chunk, metadata = metadata d\<rparr>) pieces)"
  using assms by (simp add: split_documents_def splitter_split_documents_def)

lemma no_space_alphabet: "\<forall>c\<in>set ''abcdefghijklmnopqrstuvwxyz''. \<not> isspace c"
  by (simp add: isspace_def whitespace_def)

lemma split_alphabet:
  "split_text (initialize_text_splitter 9 2) ''abcdefghijklmnopqrstuvwxyz''
     = Inr [''abcdefghi'', ''hijklmnop'', ''opqrstuvw'', ''vwxyz'']"
  by code_simp

lemma chunk_overlap_example: "chunk_overlap (DocumentProcessor example_settings None None) = 2"
  by (simp add: DocumentProcessor_def py_or_def example_settings_def)

text \<open>
  C4, as stated, fails: the overlap is carried over in whole pieces between separators.
  With a chunk size of 9 and an overlap of 2 the text \<open>''aaaa bbbb cccc''\<close> gives the
  chunks \<open>''aaaa bbbb''\<close> and \<open>''cccc''\<close>, both at least 2 characters long, and the last
  two characters of the first are not the first two of the second.
\<close>

theorem adjacent_chunks_overlap_counterexample:
  "chunk_overlap (DocumentProcessor example_settings None None) = 2
   \<and> split_documents (DocumentProcessor example_settings None None)
        [\<lparr>page_content = ''aaaa bbbb cccc'', metadata = Map.empty\<rparr>]
     = Inr [\<lparr>page_content = ''aaaa bbbb'', metadata = Map.empty\<rparr>,
            \<lparr>page_content = ''cccc'', metadata = Map.empty\<rparr>]
   \<and> 2 \<le> length ''aaaa bbbb'' \<and> 2 \<le> length ''cccc''
   \<and> drop (length ''aaaa bbbb'' - 2) ''aaaa bbbb'' \<noteq> take 2 ''cccc''"
  by (simp add: chunk_overlap_example split_documents_def splitter_split_documents_def
      example_processor example_split)

text \<open>
  C4, amended: when the text of a source unit has no white space (so none of the
  separators occurs in it) and \<open>0 \<le> chunk_overlap < chunk_size\<close>, \<open>split_documents\<close>
  returns chunks of which every one but the last ends with the \<open>chunk_overlap\<close>
  characters the next one starts with.
\<close>

theorem separator_free_chunks_overlap:
  assumes "0 \<le> chunk_overlap (DocumentProcessor st gs go)"
    and "chunk_overlap (DocumentProcessor st gs go) < chunk_size (DocumentProcessor st gs go)"
    and "\<forall>c\<in>set (page_content d). \<not> isspace c"
  shows "\<exists>chunks. split_documents (DocumentProcessor st gs go) [d] = Inr chunks
     \<and> (\<forall>i. Suc i < length chunks \<longrightarrow>
          drop (length (page_content (chunks ! i)) - nat (chunk_overlap (DocumentProcessor st gs go)))
               (page_content (chunks ! i))
          = take (nat (chunk_overlap (DocumentProcessor st gs go)))
               (page_content (chunks ! Suc i)))"
proof -
  let ?p = "DocumentProcessor st gs go"
  let ?n = "nat (chunk_size ?p)" and ?k = "nat (chunk_overlap ?p)"
  let ?ws = "if page_content d = [] then [] else windows ?n ?k (page_content d)"
  let ?chunks = "map (\<lambda>chunk. \<lparr>page_content = chunk, metadata = metadata d\<rparr>) ?ws"
  have ts: "text_splitter ?p = initialize_text_splitter (chunk_size ?p) (chunk_overlap ?p)"
    by (simp add: DocumentProcessor_def Let_def)
  have "split_text (text_splitter ?p) (page_content d) = Inr ?ws"
    unfolding ts using assms by (rule split_text_no_space)
  then have s: "split_documents ?p [d] = Inr ?chunks" by (rule split_single_document)
  have kn: "?k < ?n" using assms(1,2) by simp
  have "drop (length (page_content (?chunks ! i)) - ?k) (page_content (?chunks ! i))
      = take ?k (page_content (?chunks ! Suc i))" if i: "Suc i < length ?chunks" for i
  proof -
    from i have ne: "page_content d \<noteq> []" by (auto split: if_splits)
    with i have l: "Suc i < length (windows ?n ?k (page_content d))" by simp
    from windows_overlap [OF kn l] ne l show ?thesis by simp
  qed
  with s show ?thesis by blast
qed

theorem separator_free_chunks_overlap_witness:
  "split_documents (DocumentProcessor example_settings None None)
        [\<lparr>page_content = ''abcdefghijklmnopqrstuvwxyz'', metadata = Map.empty\<rparr>]
     = Inr [\<lparr>page_content = ''abcdefghi'', metadata = Map.empty\<rparr>,
            \<lparr>page_content = ''hijklmnop'', metadata = Map.empty\<rparr>,
            \<lparr>page_content = ''opqrstuvw'', metadata = Map.empty\<rparr>,
            \<lparr>page_content = ''vwxyz'', metadata = Map.empty\<rparr>]
   \<and> drop (length ''abcdefghi'' - 2) ''abcdefghi'' = take 2 ''hijklmnop''
   \<and> drop (length ''hijklmnop'' - 2) ''hijklmnop'' = take 2 ''opqrstuvw''
   \<and> drop (length ''opqrstuvw'' - 2) ''opqrstuvw'' = take 2 ''vwxyz''"
  using separator_free_chunks_overlap
    [of example_settings None None
        "\<lparr>page_content = ''abcdefghijklmnopqrstuvwxyz'', metadata = Map.empty\<rparr>"]
  by (simp add: chunk_overlap_example chunk_size_example no_space_alphabet
      split_documents_def splitter_split_documents_def example_processor split_alphabet)

end
